theory Spec2Isabelle
  imports Main "HOL-Library.Word" "HOL-Library.Sublist"
begin

section \<open>Values, expressions and query nodes\<close>

text \<open>
  The rewrite of \<^verbatim>\<open>bind_pivot.cpp\<close> builds parsed expressions and select nodes. The classes
  themselves (\<^verbatim>\<open>Value\<close>, \<^verbatim>\<open>ParsedExpression\<close> and its subclasses, \<^verbatim>\<open>SelectNode\<close>,
  \<^verbatim>\<open>TableRef\<close>) are declared in headers outside the two source files, so the datatypes below
  carry exactly the fields and constructors that \<^verbatim>\<open>bind_pivot.cpp\<close> reads or builds.
\<close>

text \<open>
  Modelled from the spec: a literal value (class \<^verbatim>\<open>Value\<close> is not among the sources). The
  rewrite builds string values, \<^verbatim>\<open>Value::INTEGER\<close> and \<^verbatim>\<open>Value::LIST\<close>; two values are the
  same element of a \<^verbatim>\<open>value_set_t\<close> when they are structurally equal.
\<close>

datatype Value = VARCHAR string | INTEGER int | LIST "Value list"

datatype ExpressionType = OPERATOR_IS_NOT_NULL | CONJUNCTION_AND | OTHER_OPERATOR string

datatype ParsedExpression =
    ColumnRefExpression (expr_alias: string) (qualifier: "string list") (column_name: string)
  | ConstantExpression (expr_alias: string) (constant_value: Value)
  | FunctionExpression (expr_alias: string) (function_name: string) (children: "ParsedExpression list")
  | StarExpression (expr_alias: string)
  | OperatorExpression (expr_alias: string) (operator_type: ExpressionType)
      (children: "ParsedExpression list")
  | ConjunctionExpression (expr_alias: string) (operator_type: ExpressionType)
      (children: "ParsedExpression list")
  | SubqueryExpression (expr_alias: string) (children: "ParsedExpression list")
  | WindowExpression (expr_alias: string) (function_name: string) (children: "ParsedExpression list")

datatype TableRef =
    BaseTableRef string
  | SubqueryRef SelectNode string
and SelectNode =
    SelectNode (select_list: "ParsedExpression list") (from_table: "TableRef option")
      (where_clause: "ParsedExpression option") (group_expressions: "ParsedExpression list")

text \<open>
  Exceptions are values. An access \<^verbatim>\<open>v[i]\<close> past the end of a \<^verbatim>\<open>vector\<close> is undefined
  behaviour in C++; the model makes it the result \<open>OutOfBoundsAccess\<close>. A failed \<^verbatim>\<open>D_ASSERT\<close>
  is \<open>AssertionFailure\<close>. Messages are the source's format strings, without their arguments.
\<close>

datatype error =
    BinderException string
  | ParserException string
  | InternalException string
  | AssertionFailure string
  | OutOfBoundsAccess
  | ExternalError string

datatype LogicalType = ENUM "string list" | OTHER_TYPE string

record PivotColumnEntry =
  entry_values :: "Value list"
  star_expr :: "ParsedExpression option"
  entry_alias :: string

record PivotColumn =
  pivot_expressions :: "ParsedExpression list"
  column_unpivot_names :: "string list"
  entries :: "PivotColumnEntry list"
  pivot_enum :: string

record PivotRef =
  source :: "TableRef option"
  aggregates :: "ParsedExpression list"
  unpivot_names :: "string list"
  pivots :: "PivotColumn list"
  groups :: "string list"
  column_name_alias :: "string list"
  include_nulls :: bool
  ref_alias :: string

record PivotValueElement =
  pv_values :: "Value list"
  pv_name :: string

text \<open>
  What \<^verbatim>\<open>bind_pivot.cpp\<close> uses and the sources do not define is a parameter of the model:
  \<^item> \<open>ToString\<close>: \<^verbatim>\<open>Value::ToString\<close>;
  \<^item> \<open>ExpressionToString\<close>: \<^verbatim>\<open>ParsedExpression::ToString\<close>;
  \<^item> \<open>debug\<close>: whether \<^verbatim>\<open>D_ASSERT\<close> is compiled in (the macro is empty in a release build);
  \<^item> \<open>GetType\<close>: \<^verbatim>\<open>Catalog::GetType\<close>, which may throw;
  \<^item> \<open>moved_Value\<close>, \<open>moved_string\<close>: the state a \<^verbatim>\<open>Value\<close> or a \<^verbatim>\<open>std::string\<close> is left in
    after \<^verbatim>\<open>std::move\<close> (valid but unspecified).
\<close>

record Externals =
  ToString :: "Value \<Rightarrow> string"
  ExpressionToString :: "ParsedExpression \<Rightarrow> string"
  debug :: bool
  GetType :: "string \<Rightarrow> error + LogicalType"
  moved_Value :: "Value \<Rightarrow> Value"
  moved_string :: "string \<Rightarrow> string"

text \<open>\<^verbatim>\<open>D_ASSERT(cond)\<close>: throws in a debug build when the condition fails, nothing otherwise.\<close>

definition D_ASSERT :: "Externals \<Rightarrow> bool \<Rightarrow> string \<Rightarrow> error + unit" where
  "D_ASSERT ext cond msg = (if debug ext \<and> \<not> cond then Inl (AssertionFailure msg) else Inr ())"

text \<open>
  A range-based \<^verbatim>\<open>for\<close> loop whose body updates a state and may throw: the first exception
  ends the loop.
\<close>

fun for_each :: "('a \<Rightarrow> 's \<Rightarrow> error + 's) \<Rightarrow> 'a list \<Rightarrow> 's \<Rightarrow> error + 's" where
  "for_each body [] s = Inr s"
| "for_each body (x # xs) s =
     (case body x s of Inl e \<Rightarrow> Inl e | Inr s' \<Rightarrow> for_each body xs s')"

lemma for_each_cong [fundef_cong]:
  "xs = ys \<Longrightarrow> s = t \<Longrightarrow> (\<And>x u. x \<in> set ys \<Longrightarrow> f x u = g x u)
    \<Longrightarrow> for_each f xs s = for_each g ys t"
proof (induction ys arbitrary: xs s t)
  case Nil
  then show ?case by simp
next
  case (Cons y ys)
  then show ?case by (auto split: sum.splits)
qed

section \<open>The pivot-value enumerator\<close>

text \<open>
  The inner loop of \<^verbatim>\<open>ConstructPivots\<close> (lines 33-43): every value of the entry is appended to
  \<^verbatim>\<open>new_value.values\<close>; when the entry has no alias, \<^verbatim>\<open>name\<close> collects the values' strings,
  and an empty \<^verbatim>\<open>name\<close> is overwritten rather than extended.
\<close>

fun append_entry_values ::
  "Externals \<Rightarrow> PivotColumnEntry \<Rightarrow> Value list \<Rightarrow> PivotValueElement \<times> string
    \<Rightarrow> PivotValueElement \<times> string" where
  "append_entry_values ext entry [] (new_value, name) = (new_value, name)"
| "append_entry_values ext entry (v # vs) (new_value, name) =
     append_entry_values ext entry vs
       (new_value\<lparr>pv_values := pv_values new_value @ [v]\<rparr>,
        if entry_alias entry = [] then
          (if name = [] then ToString ext v else name @ ''_'' @ ToString ext v)
        else name)"

text \<open>Lines 30-48: the element that one entry adds to the accumulated \<^verbatim>\<open>current_value\<close>.\<close>

definition extend_value ::
  "Externals \<Rightarrow> PivotValueElement \<Rightarrow> PivotColumnEntry \<Rightarrow> PivotValueElement" where
  "extend_value ext current_value entry =
     (case append_entry_values ext entry (entry_values entry) (current_value, entry_alias entry) of
        (new_value, name) \<Rightarrow>
          if pv_name current_value \<noteq> [] then
            new_value\<lparr>pv_name := pv_name current_value @ ''_'' @ name\<rparr>
          else new_value\<lparr>pv_name := name\<rparr>)"

text \<open>
  \<^verbatim>\<open>ConstructPivots\<close> (lines 25-56). \<^verbatim>\<open>pivot_values\<close> is the output vector, passed by reference;
  \<^verbatim>\<open>ref.pivots[pivot_idx]\<close> is read without a bounds check.
\<close>

function ConstructPivots ::
  "Externals \<Rightarrow> PivotRef \<Rightarrow> PivotValueElement list \<Rightarrow> nat \<Rightarrow> PivotValueElement
    \<Rightarrow> error + PivotValueElement list" where
  "ConstructPivots ext ref pivot_values pivot_idx current_value =
     (if length (pivots ref) \<le> pivot_idx then Inl OutOfBoundsAccess
      else
        let pivot = pivots ref ! pivot_idx;
            last_pivot = (pivot_idx + 1 = length (pivots ref))
        in for_each
             (\<lambda>entry pivot_values.
                case D_ASSERT ext (length (entry_values entry) = length (pivot_expressions pivot))
                       ''entry.values.size() == pivot.pivot_expressions.size()'' of
                  Inl e \<Rightarrow> Inl e
                | Inr _ \<Rightarrow>
                    let new_value = extend_value ext current_value entry
                    in if last_pivot then Inr (pivot_values @ [new_value])
                       else ConstructPivots ext ref pivot_values (pivot_idx + 1) new_value)
             (entries pivot) pivot_values)"
  by pat_completeness auto
termination
  by (relation "measure (\<lambda>(ext, ref, pivot_values, pivot_idx, current_value).
        length (pivots ref) - pivot_idx)") auto

declare ConstructPivots.simps [simp del]

text \<open>The default argument \<^verbatim>\<open>PivotValueElement()\<close>.\<close>

definition empty_PivotValueElement :: PivotValueElement where
  "empty_PivotValueElement = \<lparr>pv_values = [], pv_name = []\<rparr>"

section \<open>Names and name sets\<close>

text \<open>
  \<^verbatim>\<open>std::to_string\<close> on an \<^verbatim>\<open>idx_t\<close>: the decimal digits, most significant first. The counters
  it is applied to count elements of a \<^verbatim>\<open>vector\<close>, so they are natural numbers here.
\<close>

definition digit_char :: "nat \<Rightarrow> char" where
  "digit_char d = ''0123456789'' ! d"

fun to_string :: "nat \<Rightarrow> string" where
  "to_string n =
     (if n < 10 then [digit_char n] else to_string (n div 10) @ [digit_char (n mod 10)])"

declare to_string.simps [simp del]

text \<open>
  Modelled from the spec: \<^verbatim>\<open>case_insensitive_set_t\<close> and \<^verbatim>\<open>case_insensitive_map_t\<close> compare
  their keys without regard to case (the containers are not among the sources). A key is
  stored under its lower-case form.
\<close>

definition Lower_char :: "char \<Rightarrow> char" where
  "Lower_char c =
     (let n = (of_char c :: nat) in if 65 \<le> n \<and> n \<le> 90 then char_of (n + 32) else c)"

definition Lower :: "string \<Rightarrow> string" where
  "Lower s = map Lower_char s"

type_synonym case_insensitive_set_t = "string set"

definition cis_insert :: "string \<Rightarrow> case_insensitive_set_t \<Rightarrow> case_insensitive_set_t" where
  "cis_insert name S = insert (Lower name) S"

definition cis_find :: "case_insensitive_set_t \<Rightarrow> string \<Rightarrow> bool" where
  "cis_find S name = (Lower name \<in> S)"

definition cis_erase :: "string \<Rightarrow> case_insensitive_set_t \<Rightarrow> case_insensitive_set_t" where
  "cis_erase name S = S - {Lower name}"

section \<open>Expression helpers\<close>

text \<open>The expression class tests the rewrite makes (\<^verbatim>\<open>expr.type == ExpressionType::...\<close>).\<close>

fun is_COLUMN_REF :: "ParsedExpression \<Rightarrow> bool" where
  "is_COLUMN_REF (ColumnRefExpression a q n) = True"
| "is_COLUMN_REF e = False"

fun is_FUNCTION :: "ParsedExpression \<Rightarrow> bool" where
  "is_FUNCTION (FunctionExpression a f cs) = True"
| "is_FUNCTION e = False"

text \<open>\<^verbatim>\<open>ParsedExpressionIterator::EnumerateChildren\<close>: the direct children, in order.\<close>

fun EnumerateChildren :: "ParsedExpression \<Rightarrow> ParsedExpression list" where
  "EnumerateChildren (FunctionExpression a f cs) = cs"
| "EnumerateChildren (OperatorExpression a t cs) = cs"
| "EnumerateChildren (ConjunctionExpression a t cs) = cs"
| "EnumerateChildren (SubqueryExpression a cs) = cs"
| "EnumerateChildren (WindowExpression a f cs) = cs"
| "EnumerateChildren e = []"

text \<open>
  Modelled from the spec: \<^verbatim>\<open>HasSubquery\<close> and \<^verbatim>\<open>IsWindow\<close> (methods of \<^verbatim>\<open>ParsedExpression\<close>, not
  among the sources): the expression is, or contains, a sub-query or a window function.
\<close>

fun HasSubquery :: "ParsedExpression \<Rightarrow> bool" where
  "HasSubquery (SubqueryExpression a cs) = True"
| "HasSubquery (FunctionExpression a f cs) = list_ex HasSubquery cs"
| "HasSubquery (OperatorExpression a t cs) = list_ex HasSubquery cs"
| "HasSubquery (ConjunctionExpression a t cs) = list_ex HasSubquery cs"
| "HasSubquery (WindowExpression a f cs) = list_ex HasSubquery cs"
| "HasSubquery e = False"

fun IsWindow :: "ParsedExpression \<Rightarrow> bool" where
  "IsWindow (WindowExpression a f cs) = True"
| "IsWindow (FunctionExpression a f cs) = list_ex IsWindow cs"
| "IsWindow (OperatorExpression a t cs) = list_ex IsWindow cs"
| "IsWindow (ConjunctionExpression a t cs) = list_ex IsWindow cs"
| "IsWindow (SubqueryExpression a cs) = list_ex IsWindow cs"
| "IsWindow e = False"

text \<open>Assignment to \<^verbatim>\<open>expr->alias\<close>.\<close>

fun set_alias :: "string \<Rightarrow> ParsedExpression \<Rightarrow> ParsedExpression" where
  "set_alias al (ColumnRefExpression a q n) = ColumnRefExpression al q n"
| "set_alias al (ConstantExpression a v) = ConstantExpression al v"
| "set_alias al (FunctionExpression a f cs) = FunctionExpression al f cs"
| "set_alias al (StarExpression a) = StarExpression al"
| "set_alias al (OperatorExpression a t cs) = OperatorExpression al t cs"
| "set_alias al (ConjunctionExpression a t cs) = ConjunctionExpression al t cs"
| "set_alias al (SubqueryExpression a cs) = SubqueryExpression al cs"
| "set_alias al (WindowExpression a f cs) = WindowExpression al f cs"

text \<open>
  \<^verbatim>\<open>GetName\<close>: the alias when there is one; otherwise a column reference gives its column
  name and any other expression its string form, which the sources do not define.
\<close>

fun GetName :: "Externals \<Rightarrow> ParsedExpression \<Rightarrow> string" where
  "GetName ext (ColumnRefExpression a q n) = (if a \<noteq> [] then a else n)"
| "GetName ext e = (if expr_alias e \<noteq> [] then expr_alias e else ExpressionToString ext e)"

text \<open>
  \<^verbatim>\<open>ExtractPivotExpressions\<close> (lines 58-68): collects the column names an expression
  references; a qualified column is an error.
\<close>

lemma size_EnumerateChildren:
  assumes "c \<in> set (EnumerateChildren e)"
  shows "size c < size e"
proof -
  have "size c < Suc (size_list size (EnumerateChildren e))"
    using assms size_list_estimation' [of c "EnumerateChildren e" "size c" size] by simp
  then show ?thesis using assms by (cases e) auto
qed

function ExtractPivotExpressions ::
  "ParsedExpression \<Rightarrow> case_insensitive_set_t \<Rightarrow> error + case_insensitive_set_t" where
  "ExtractPivotExpressions expr handled_columns =
     (case (case expr of
              ColumnRefExpression a q n \<Rightarrow>
                if q \<noteq> [] then
                  Inl (BinderException ''PIVOT expression cannot contain qualified columns'')
                else Inr (cis_insert n handled_columns)
            | _ \<Rightarrow> Inr handled_columns) of
        Inl e \<Rightarrow> Inl e
      | Inr handled_columns \<Rightarrow>
          for_each (\<lambda>child handled_columns. ExtractPivotExpressions child handled_columns)
            (EnumerateChildren expr) handled_columns)"
  by pat_completeness auto
termination
  by (relation "measure (\<lambda>(expr, handled_columns). size expr)")
    (auto dest: size_EnumerateChildren)

declare ExtractPivotExpressions.simps [simp del]

section \<open>The four stages of the pivot rewrite\<close>

record PivotBindState =
  internal_group_names :: "string list"
  group_names :: "string list"
  aggregate_names :: "string list"
  internal_aggregate_names :: "string list"
  internal_pivot_names :: "string list"
  internal_map_names :: "string list"

definition empty_PivotBindState :: PivotBindState where
  "empty_PivotBindState =
     \<lparr>internal_group_names = [], group_names = [], aggregate_names = [],
      internal_aggregate_names = [], internal_pivot_names = [], internal_map_names = []\<rparr>"

definition empty_SelectNode :: SelectNode where
  "empty_SelectNode = SelectNode [] None None []"

text \<open>\<^verbatim>\<open>node->select_list.push_back(expr)\<close> and \<^verbatim>\<open>node->groups.group_expressions.push_back(expr)\<close>.\<close>

fun push_select :: "ParsedExpression \<Rightarrow> SelectNode \<Rightarrow> SelectNode" where
  "push_select expr (SelectNode sl ft wc ge) = SelectNode (sl @ [expr]) ft wc ge"

fun push_group :: "ParsedExpression \<Rightarrow> SelectNode \<Rightarrow> SelectNode" where
  "push_group expr (SelectNode sl ft wc ge) = SelectNode sl ft wc (ge @ [expr])"

fun set_from_table :: "TableRef option \<Rightarrow> SelectNode \<Rightarrow> SelectNode" where
  "set_from_table t (SelectNode sl ft wc ge) = SelectNode sl t wc ge"

fun set_select_list :: "ParsedExpression list \<Rightarrow> SelectNode \<Rightarrow> SelectNode" where
  "set_select_list es (SelectNode sl ft wc ge) = SelectNode es ft wc ge"

text \<open>
  \<^verbatim>\<open>make_unique<ConstantExpression>(Value::INTEGER(node->select_list.size() + 1))\<close> pushed to
  the group expressions: the position the next select-list entry will take.
\<close>

definition push_group_position :: "SelectNode \<Rightarrow> SelectNode" where
  "push_group_position node =
     push_group (ConstantExpression [] (INTEGER (int (length (select_list node) + 1)))) node"

text \<open>A column reference built from one name: \<^verbatim>\<open>make_unique<ColumnRefExpression>(name)\<close>.\<close>

definition ColumnRef :: "string \<Rightarrow> ParsedExpression" where
  "ColumnRef name = ColumnRefExpression [] [] name"

subsection \<open>Stage 1\<close>

text \<open>Lines 84-95: without explicit rows, every source column that is not handled is a group.\<close>

definition stage1_implicit_group ::
  "case_insensitive_set_t \<Rightarrow> ParsedExpression \<Rightarrow> SelectNode \<Rightarrow> error + SelectNode" where
  "stage1_implicit_group handled_columns entry node =
     (if \<not> is_COLUMN_REF entry then
        Inl (InternalException ''Unexpected child of pivot source - not a ColumnRef'')
      else if \<not> cis_find handled_columns (column_name entry) then
        Inr (push_select entry (push_group_position node))
      else Inr node)"

text \<open>Lines 98-102: with explicit rows, exactly the named columns are groups.\<close>

definition stage1_explicit_group :: "string \<Rightarrow> SelectNode \<Rightarrow> SelectNode" where
  "stage1_explicit_group row node = push_select (ColumnRef row) (push_group_position node)"

text \<open>
  Lines 104-111: every group expression is named; one without an alias gets the next
  \<^verbatim>\<open>__internal_pivot_group\<close> alias. The loop writes the aliases into the select list.
\<close>

fun stage1_group_aliases ::
  "Externals \<Rightarrow> ParsedExpression list \<Rightarrow> nat \<times> PivotBindState
    \<Rightarrow> ParsedExpression list \<times> nat \<times> PivotBindState" where
  "stage1_group_aliases ext [] st = ([], st)"
| "stage1_group_aliases ext (expr # rest) (group_count, bind_state) =
     (let bind_state = bind_state\<lparr>group_names := group_names bind_state @ [GetName ext expr]\<rparr>;
          group_count = (if expr_alias expr = [] then group_count + 1 else group_count);
          expr = (if expr_alias expr = [] then
                    set_alias (''__internal_pivot_group'' @ to_string group_count) expr
                  else expr);
          bind_state = bind_state\<lparr>internal_group_names :=
                         internal_group_names bind_state @ [expr_alias expr]\<rparr>
      in case stage1_group_aliases ext rest (group_count, bind_state) of
           (rest', st) \<Rightarrow> (expr # rest', st))"

text \<open>
  Lines 114-125: every pivot expression moves into the select list under its alias (a
  \<^verbatim>\<open>__internal_pivot_ref\<close> alias when it has none), and a reference to that alias takes its
  place in \<^verbatim>\<open>ref.pivots\<close>.
\<close>

fun stage1_pivot_expressions ::
  "ParsedExpression list \<Rightarrow> nat \<times> SelectNode \<Rightarrow> ParsedExpression list \<times> nat \<times> SelectNode" where
  "stage1_pivot_expressions [] st = ([], st)"
| "stage1_pivot_expressions (pivot_expr # rest) (pivot_count, node) =
     (let pivot_count = (if expr_alias pivot_expr = [] then pivot_count + 1 else pivot_count);
          pivot_expr = (if expr_alias pivot_expr = [] then
                          set_alias (''__internal_pivot_ref'' @ to_string pivot_count) pivot_expr
                        else pivot_expr);
          pivot_alias = expr_alias pivot_expr;
          node = push_select pivot_expr (push_group_position node)
      in case stage1_pivot_expressions rest (pivot_count, node) of
           (rest', st) \<Rightarrow> (ColumnRef pivot_alias # rest', st))"

fun stage1_pivots ::
  "PivotColumn list \<Rightarrow> nat \<times> SelectNode \<Rightarrow> PivotColumn list \<times> nat \<times> SelectNode" where
  "stage1_pivots [] st = ([], st)"
| "stage1_pivots (pivot_column # rest) st =
     (case stage1_pivot_expressions (pivot_expressions pivot_column) st of
        (exprs, st) \<Rightarrow>
          (case stage1_pivots rest st of
             (rest', st) \<Rightarrow> (pivot_column\<lparr>pivot_expressions := exprs\<rparr> # rest', st)))"

text \<open>Lines 126-134: the aggregates, each under the next \<^verbatim>\<open>__internal_pivot_aggregate\<close> alias.\<close>

fun stage1_aggregates ::
  "ParsedExpression list \<Rightarrow> nat \<times> PivotBindState \<times> SelectNode
    \<Rightarrow> nat \<times> PivotBindState \<times> SelectNode" where
  "stage1_aggregates [] st = st"
| "stage1_aggregates (aggregate # rest) (aggregate_count, bind_state, node) =
     (let aggregate_count = aggregate_count + 1;
          aggregate_alias = ''__internal_pivot_aggregate'' @ to_string aggregate_count;
          bind_state = bind_state\<lparr>aggregate_names :=
                         aggregate_names bind_state @ [expr_alias aggregate]\<rparr>;
          bind_state = bind_state\<lparr>internal_aggregate_names :=
                         internal_aggregate_names bind_state @ [aggregate_alias]\<rparr>;
          node = push_select (set_alias aggregate_alias aggregate) node
      in stage1_aggregates rest (aggregate_count, bind_state, node))"

text \<open>
  \<^verbatim>\<open>PivotStageOne\<close> (lines 79-136). It returns the node and, since \<^verbatim>\<open>bind_state\<close> and \<^verbatim>\<open>ref\<close>
  are passed by reference, their new states. \<^verbatim>\<open>ref.source\<close> is moved into the node. The
  aggregates are moved out of \<^verbatim>\<open>ref.aggregates\<close>, which nothing reads afterwards; the
  model leaves that field as it was.
\<close>

definition PivotStageOne ::
  "Externals \<Rightarrow> PivotBindState \<Rightarrow> PivotRef \<Rightarrow> ParsedExpression list
    \<Rightarrow> case_insensitive_set_t \<Rightarrow> error + SelectNode \<times> PivotBindState \<times> PivotRef" where
  "PivotStageOne ext bind_state ref all_columns handled_columns =
     (let subquery_stage1 = set_from_table (source ref) empty_SelectNode;
          ref = ref\<lparr>source := None\<rparr>
      in case (if groups ref = [] then
                 for_each (stage1_implicit_group handled_columns) all_columns subquery_stage1
               else Inr (fold stage1_explicit_group (groups ref) subquery_stage1)) of
           Inl e \<Rightarrow> Inl e
         | Inr subquery_stage1 \<Rightarrow>
             (case stage1_group_aliases ext (select_list subquery_stage1) (0, bind_state) of
                (sl, group_count, bind_state) \<Rightarrow>
                  (case stage1_pivots (pivots ref) (0, set_select_list sl subquery_stage1) of
                     (new_pivots, pivot_count, subquery_stage1) \<Rightarrow>
                       (case stage1_aggregates (aggregates ref) (0, bind_state, subquery_stage1) of
                          (aggregate_count, bind_state, subquery_stage1) \<Rightarrow>
                            Inr (subquery_stage1, bind_state, ref\<lparr>pivots := new_pivots\<rparr>)))))"

subsection \<open>Stage 2\<close>

text \<open>Lines 146-152: the groups are selected again and grouped by position.\<close>

definition stage2_group :: "string \<Rightarrow> SelectNode \<Rightarrow> SelectNode" where
  "stage2_group internal_group_name node =
     push_select (ColumnRefExpression internal_group_name [] internal_group_name)
       (push_group_position node)"

text \<open>Lines 155-162: \<^verbatim>\<open>list(aggregate)\<close> under the aggregate's internal name.\<close>

definition stage2_aggregate :: "string \<Rightarrow> SelectNode \<Rightarrow> SelectNode" where
  "stage2_aggregate internal_aggregate_name node =
     push_select
       (FunctionExpression internal_aggregate_name ''list'' [ColumnRef internal_aggregate_name])
       node"

text \<open>Lines 164-175: \<^verbatim>\<open>list(pivot expression)\<close> under the next \<^verbatim>\<open>__internal_pivot_name\<close>.\<close>

fun stage2_pivot_expressions ::
  "ParsedExpression list \<Rightarrow> nat \<times> PivotBindState \<times> SelectNode
    \<Rightarrow> nat \<times> PivotBindState \<times> SelectNode" where
  "stage2_pivot_expressions [] st = st"
| "stage2_pivot_expressions (pivot_expr # rest) (pivot_count, bind_state, node) =
     (let pivot_count = pivot_count + 1;
          pivot_name = ''__internal_pivot_name'' @ to_string pivot_count;
          node = push_select (FunctionExpression pivot_name ''list'' [pivot_expr]) node;
          bind_state = bind_state\<lparr>internal_pivot_names :=
                         internal_pivot_names bind_state @ [pivot_name]\<rparr>
      in stage2_pivot_expressions rest (pivot_count, bind_state, node))"

fun stage2_pivots ::
  "PivotColumn list \<Rightarrow> nat \<times> PivotBindState \<times> SelectNode
    \<Rightarrow> nat \<times> PivotBindState \<times> SelectNode" where
  "stage2_pivots [] st = st"
| "stage2_pivots (pivot # rest) st =
     stage2_pivots rest (stage2_pivot_expressions (pivot_expressions pivot) st)"

text \<open>
  \<^verbatim>\<open>PivotStageTwo\<close> (lines 138-178). The pivot expressions are moved out of \<^verbatim>\<open>ref\<close>, which
  nothing reads afterwards, so \<^verbatim>\<open>ref\<close> is not returned.
\<close>

definition PivotStageTwo ::
  "PivotBindState \<Rightarrow> PivotRef \<Rightarrow> SelectNode \<Rightarrow> SelectNode \<times> PivotBindState" where
  "PivotStageTwo bind_state ref subquery_stage1 =
     (let subquery_ref = SubqueryRef subquery_stage1 [];
          subquery_stage2 = fold stage2_group (internal_group_names bind_state) empty_SelectNode;
          subquery_stage2 =
            fold stage2_aggregate (internal_aggregate_names bind_state) subquery_stage2
      in case stage2_pivots (pivots ref) (0, bind_state, subquery_stage2) of
           (pivot_count, bind_state, subquery_stage2) \<Rightarrow>
             (set_from_table (Some subquery_ref) subquery_stage2, bind_state))"

subsection \<open>Stage 3\<close>

text \<open>Lines 188-192 (and 218-222 in stage 4 with the display name as alias).\<close>

definition stage3_group :: "string \<Rightarrow> SelectNode \<Rightarrow> SelectNode" where
  "stage3_group internal_group_name node =
     push_select (ColumnRefExpression internal_group_name [] internal_group_name) node"

text \<open>
  Lines 196-205, one iteration: the map of the \<open>i\<close>-th pivot list and the \<open>i\<close>-th aggregate
  list. \<open>i\<close> is below the number of pivot lists; \<^verbatim>\<open>internal_aggregate_names[i]\<close> is read
  unchecked.
\<close>

definition stage3_map ::
  "nat \<Rightarrow> PivotBindState \<times> SelectNode \<Rightarrow> error + PivotBindState \<times> SelectNode" where
  "stage3_map i st =
     (case st of (bind_state, node) \<Rightarrow>
        if length (internal_aggregate_names bind_state) \<le> i then Inl OutOfBoundsAccess
        else
          let map_name = ''__internal_pivot_map'' @ to_string (i + 1);
              map_children = [ColumnRef (internal_pivot_names bind_state ! i),
                              ColumnRef (internal_aggregate_names bind_state ! i)];
              function = FunctionExpression map_name ''map'' map_children
          in Inr (bind_state\<lparr>internal_map_names := internal_map_names bind_state @ [map_name]\<rparr>,
                  push_select function node))"

text \<open>\<^verbatim>\<open>PivotStageThree\<close> (lines 180-208).\<close>

definition PivotStageThree ::
  "Externals \<Rightarrow> PivotBindState \<Rightarrow> PivotRef \<Rightarrow> SelectNode
    \<Rightarrow> error + SelectNode \<times> PivotBindState" where
  "PivotStageThree ext bind_state ref subquery_stage2 =
     (let subquery_ref = SubqueryRef subquery_stage2 [];
          subquery_stage3 = fold stage3_group (internal_group_names bind_state) empty_SelectNode
      in case D_ASSERT ext
                (length (internal_pivot_names bind_state)
                  = length (internal_aggregate_names bind_state))
                ''bind_state.internal_pivot_names.size() == bind_state.internal_aggregate_names.size()'' of
           Inl e \<Rightarrow> Inl e
         | Inr _ \<Rightarrow>
             (case for_each stage3_map [0 ..< length (internal_pivot_names bind_state)]
                     (bind_state, subquery_stage3) of
                Inl e \<Rightarrow> Inl e
              | Inr (bind_state, subquery_stage3) \<Rightarrow>
                  Inr (set_from_table (Some subquery_ref) subquery_stage3, bind_state)))"

subsection \<open>Stage 4\<close>

text \<open>
  Lines 218-222, one iteration: the group under its display name. \<^verbatim>\<open>group_names[gr]\<close> is
  read unchecked.
\<close>

definition stage4_group :: "PivotBindState \<Rightarrow> nat \<Rightarrow> SelectNode \<Rightarrow> error + SelectNode" where
  "stage4_group bind_state gr node =
     (if length (group_names bind_state) \<le> gr then Inl OutOfBoundsAccess
      else Inr (push_select
                  (ColumnRefExpression (group_names bind_state ! gr) []
                     (internal_group_names bind_state ! gr))
                  node))"

text \<open>
  Lines 230-241, for one pivot value (it holds exactly one value here). The value and the
  name are moved into the expression built for a map, so the next map finds them in their
  moved-from state.
\<close>

fun stage4_maps ::
  "Externals \<Rightarrow> string list \<Rightarrow> PivotValueElement \<times> SelectNode
    \<Rightarrow> PivotValueElement \<times> SelectNode" where
  "stage4_maps ext [] st = st"
| "stage4_maps ext (internal_map # rest) (pivot_value, node) =
     (let map_children = [ColumnRef internal_map,
                          ConstantExpression [] (pv_values pivot_value ! 0)];
          pivot_value = pivot_value\<lparr>pv_values :=
                          (pv_values pivot_value)[0 := moved_Value ext (pv_values pivot_value ! 0)]\<rparr>;
          function = FunctionExpression [] ''map_extract'' map_children;
          array_children = [function, ConstantExpression [] (INTEGER 1)];
          function = FunctionExpression (pv_name pivot_value) ''array_extract'' array_children;
          pivot_value = pivot_value\<lparr>pv_name := moved_string ext (pv_name pivot_value)\<rparr>
      in stage4_maps ext rest (pivot_value, push_select function node))"

text \<open>Lines 225-242, one iteration of the outer loop.\<close>

definition stage4_pivot_value ::
  "Externals \<Rightarrow> PivotBindState \<Rightarrow> PivotValueElement \<Rightarrow> SelectNode \<Rightarrow> error + SelectNode" where
  "stage4_pivot_value ext bind_state pivot_value node =
     (if length (pv_values pivot_value) \<noteq> 1 then Inl (InternalException ''FIXME multiple pivots'')
      else Inr (snd (stage4_maps ext (internal_map_names bind_state) (pivot_value, node))))"

text \<open>\<^verbatim>\<open>PivotStageFour\<close> (lines 210-245).\<close>

definition PivotStageFour ::
  "Externals \<Rightarrow> PivotBindState \<Rightarrow> PivotRef \<Rightarrow> SelectNode \<Rightarrow> PivotValueElement list
    \<Rightarrow> error + SelectNode" where
  "PivotStageFour ext bind_state ref subquery_stage3 pivot_values =
     (let subquery_ref = SubqueryRef subquery_stage3 []
      in case for_each (stage4_group bind_state) [0 ..< length (internal_group_names bind_state)]
                empty_SelectNode of
           Inl e \<Rightarrow> Inl e
         | Inr subquery_stage4 \<Rightarrow>
             (case for_each (stage4_pivot_value ext bind_state) pivot_values subquery_stage4 of
                Inl e \<Rightarrow> Inl e
              | Inr subquery_stage4 \<Rightarrow> Inr (set_from_table (Some subquery_ref) subquery_stage4)))"

section \<open>Binding a PIVOT\<close>

type_synonym idx_t = "64 word"

definition PIVOT_EXPRESSION_LIMIT :: idx_t where
  "PIVOT_EXPRESSION_LIMIT = 10000"

text \<open>Lines 253-264, one iteration: an aggregate must be a function call free of sub-queries
  and window functions; its columns are handled.\<close>

definition bind_pivot_aggregate ::
  "ParsedExpression \<Rightarrow> case_insensitive_set_t \<Rightarrow> error + case_insensitive_set_t" where
  "bind_pivot_aggregate aggr handled_columns =
     (if \<not> is_FUNCTION aggr then Inl (BinderException ''Pivot expression must be an aggregate'')
      else if HasSubquery aggr then
        Inl (BinderException ''Pivot expression cannot contain subqueries'')
      else if IsWindow aggr then
        Inl (BinderException ''Pivot expression cannot contain window functions'')
      else ExtractPivotExpressions aggr handled_columns)"

text \<open>
  Lines 270-285: a pivot on an enum type gets one entry per value of the type, in the
  type's order, appended to the entries it has.
\<close>

definition expand_pivot_enum :: "Externals \<Rightarrow> PivotColumn \<Rightarrow> error + PivotColumn" where
  "expand_pivot_enum ext pivot =
     (if pivot_enum pivot \<noteq> [] then
        (case GetType ext (pivot_enum pivot) of
           Inl e \<Rightarrow> Inl e
         | Inr (ENUM enum_values) \<Rightarrow>
             Inr (pivot\<lparr>entries := entries pivot @
                    map (\<lambda>enum_value.
                           \<lparr>entry_values = [VARCHAR enum_value], star_expr = None,
                            entry_alias = enum_value\<rparr>)
                      enum_values\<rparr>)
         | Inr (OTHER_TYPE t) \<Rightarrow> Inl (BinderException ''Pivot must reference an ENUM type''))
      else Inr pivot)"

text \<open>
  Lines 292-310, one iteration: the key of an entry is its value when it has exactly one,
  and the list of its values otherwise (\<^verbatim>\<open>Value::LIST(LogicalType::VARCHAR, entry.values)\<close>,
  taken to hold the values as they are given: the class is not among the sources); a key
  seen before in this pivot column is a duplicate. The arity of the entry is checked after
  that.
\<close>

definition entry_key :: "PivotColumnEntry \<Rightarrow> Value" where
  "entry_key entry =
     (if length (entry_values entry) = 1 then entry_values entry ! 0
      else LIST (entry_values entry))"

definition bind_pivot_entry ::
  "Externals \<Rightarrow> PivotColumn \<Rightarrow> PivotColumnEntry \<Rightarrow> Value set \<Rightarrow> error + Value set" where
  "bind_pivot_entry ext pivot entry pivots_seen =
     (case D_ASSERT ext (star_expr entry = None) ''!entry.star_expr'' of
        Inl e \<Rightarrow> Inl e
      | Inr _ \<Rightarrow>
          let val = entry_key entry
          in if val \<in> pivots_seen then
               Inl (BinderException ''The value was specified multiple times in the IN clause'')
             else if length (entry_values entry) \<noteq> length (pivot_expressions pivot) then
               Inl (ParserException ''PIVOT IN list - inconsistent amount of rows'')
             else Inr (insert val pivots_seen))"

text \<open>
  Lines 269-311, one iteration. The state is \<^verbatim>\<open>total_pivots\<close>, \<^verbatim>\<open>handled_columns\<close> and the
  pivot columns as the loop leaves them (the enum expansion writes \<^verbatim>\<open>pivot.entries\<close>).
  \<^verbatim>\<open>total_pivots\<close> is an \<^verbatim>\<open>idx_t\<close>: the product wraps at \<open>2 ^ 64\<close>.
\<close>

definition bind_pivot_column ::
  "Externals \<Rightarrow> PivotColumn \<Rightarrow> idx_t \<times> case_insensitive_set_t \<times> PivotColumn list
    \<Rightarrow> error + idx_t \<times> case_insensitive_set_t \<times> PivotColumn list" where
  "bind_pivot_column ext pivot st =
     (case st of (total_pivots, handled_columns, bound) \<Rightarrow>
        (case expand_pivot_enum ext pivot of
           Inl e \<Rightarrow> Inl e
         | Inr pivot \<Rightarrow>
             let total_pivots = total_pivots * of_nat (length (entries pivot))
             in (case for_each ExtractPivotExpressions (pivot_expressions pivot) handled_columns of
                   Inl e \<Rightarrow> Inl e
                 | Inr handled_columns \<Rightarrow>
                     (case for_each (bind_pivot_entry ext pivot) (entries pivot) {} of
                        Inl e \<Rightarrow> Inl e
                      | Inr pivots_seen \<Rightarrow>
                          Inr (total_pivots, handled_columns, bound @ [pivot])))))"

text \<open>
  Lines 248-314: validation, up to and including the limit on the number of pivot values.
  It returns \<^verbatim>\<open>ref\<close> as the loops leave it and the handled columns.
\<close>

definition BindPivot_validate ::
  "Externals \<Rightarrow> PivotRef \<Rightarrow> error + PivotRef \<times> case_insensitive_set_t" where
  "BindPivot_validate ext ref =
     (case for_each bind_pivot_aggregate (aggregates ref) {} of
        Inl e \<Rightarrow> Inl e
      | Inr handled_columns \<Rightarrow>
          (case for_each (bind_pivot_column ext) (pivots ref) (1, handled_columns, []) of
             Inl e \<Rightarrow> Inl e
           | Inr (total_pivots, handled_columns, bound) \<Rightarrow>
               if total_pivots \<ge> PIVOT_EXPRESSION_LIMIT then
                 Inl (BinderException ''Pivot column limit of %llu exceeded'')
               else Inr (ref\<lparr>pivots := bound\<rparr>, handled_columns)))"

text \<open>
  Lines 335-347: the first three stages, each wrapping the one before. The result holds the
  states of \<^verbatim>\<open>bind_state\<close> and \<^verbatim>\<open>ref\<close> beside the node of stage 3.
\<close>

definition PivotStagesOneToThree ::
  "Externals \<Rightarrow> PivotRef \<Rightarrow> ParsedExpression list \<Rightarrow> case_insensitive_set_t
    \<Rightarrow> error + SelectNode \<times> PivotBindState \<times> PivotRef" where
  "PivotStagesOneToThree ext ref all_columns handled_columns =
     (case PivotStageOne ext empty_PivotBindState ref all_columns handled_columns of
        Inl e \<Rightarrow> Inl e
      | Inr (subquery_stage1, bind_state, ref) \<Rightarrow>
          (case PivotStageTwo bind_state ref subquery_stage1 of
             (subquery_stage2, bind_state) \<Rightarrow>
               (case PivotStageThree ext bind_state ref subquery_stage2 of
                  Inl e \<Rightarrow> Inl e
                | Inr (subquery_stage3, bind_state) \<Rightarrow>
                    Inr (subquery_stage3, bind_state, ref))))"

text \<open>Lines 335-353: the four stages.\<close>

definition BindPivot_stages ::
  "Externals \<Rightarrow> PivotRef \<Rightarrow> ParsedExpression list \<Rightarrow> case_insensitive_set_t
    \<Rightarrow> PivotValueElement list \<Rightarrow> error + SelectNode" where
  "BindPivot_stages ext ref all_columns handled_columns pivot_values =
     (case PivotStagesOneToThree ext ref all_columns handled_columns of
        Inl e \<Rightarrow> Inl e
      | Inr (subquery_stage3, bind_state, ref) \<Rightarrow>
          PivotStageFour ext bind_state ref subquery_stage3 pivot_values)"

text \<open>\<^verbatim>\<open>Binder::BindPivot\<close> (lines 247-354).\<close>

definition BindPivot ::
  "Externals \<Rightarrow> PivotRef \<Rightarrow> ParsedExpression list \<Rightarrow> error + SelectNode" where
  "BindPivot ext ref all_columns =
     (case BindPivot_validate ext ref of
        Inl e \<Rightarrow> Inl e
      | Inr (ref, handled_columns) \<Rightarrow>
          (case ConstructPivots ext ref [] 0 empty_PivotValueElement of
             Inl e \<Rightarrow> Inl e
           | Inr pivot_values \<Rightarrow>
               BindPivot_stages ext ref all_columns handled_columns pivot_values))"

section \<open>Binding an UNPIVOT\<close>

text \<open>
  A binder whose source is bound expands a star expression into the columns of that
  source (\<^verbatim>\<open>Binder::ExpandStarExpression\<close>); the expansion may throw.
\<close>

type_synonym StarBinder = "ParsedExpression \<Rightarrow> error + ParsedExpression list"

text \<open>Lines 377-386, one iteration: the entry that a column of an expanded star becomes.\<close>

definition unpivot_star_column ::
  "ParsedExpression \<Rightarrow> PivotColumnEntry list \<Rightarrow> error + PivotColumnEntry list" where
  "unpivot_star_column col new_entries =
     (if \<not> is_COLUMN_REF col then
        Inl (InternalException ''Unexpected child of unpivot star - not a ColumnRef'')
      else Inr (new_entries @
                  [\<lparr>entry_values = [VARCHAR (column_name col)], star_expr = None,
                    entry_alias = column_name col\<rparr>]))"

text \<open>Lines 371-390, one iteration.\<close>

definition unpivot_expand_entry ::
  "Externals \<Rightarrow> StarBinder \<Rightarrow> PivotColumnEntry \<Rightarrow> PivotColumnEntry list
    \<Rightarrow> error + PivotColumnEntry list" where
  "unpivot_expand_entry ext child_binder entry new_entries =
     (case star_expr entry of
        Some star \<Rightarrow>
          (case D_ASSERT ext (entry_values entry = []) ''entry.values.empty()'' of
             Inl e \<Rightarrow> Inl e
           | Inr _ \<Rightarrow>
               (case child_binder star of
                  Inl e \<Rightarrow> Inl e
                | Inr star_columns \<Rightarrow> for_each unpivot_star_column star_columns new_entries))
      | None \<Rightarrow> Inr (new_entries @ [entry]))"

text \<open>Lines 395-399: the columns the entries name.\<close>

definition unpivot_handled_columns ::
  "Externals \<Rightarrow> PivotColumnEntry list \<Rightarrow> case_insensitive_set_t" where
  "unpivot_handled_columns ext unpivot_entries =
     fold (\<lambda>entry handled_columns.
             fold (\<lambda>v handled_columns. cis_insert (ToString ext v) handled_columns)
               (entry_values entry) handled_columns)
       unpivot_entries {}"

text \<open>
  Lines 401-415, one iteration: a source column that no entry names is selected as it is;
  one that an entry names is recorded in the name map and erased from the handled set.
\<close>

definition unpivot_source_column ::
  "ParsedExpression \<Rightarrow> SelectNode \<times> (string \<rightharpoonup> string) \<times> case_insensitive_set_t
    \<Rightarrow> error + SelectNode \<times> (string \<rightharpoonup> string) \<times> case_insensitive_set_t" where
  "unpivot_source_column col_expr st =
     (case st of (select_node, name_map, handled_columns) \<Rightarrow>
        if \<not> is_COLUMN_REF col_expr then
          Inl (InternalException ''Unexpected child of pivot source - not a ColumnRef'')
        else if \<not> cis_find handled_columns (column_name col_expr) then
          Inr (push_select col_expr select_node, name_map, handled_columns)
        else
          Inr (select_node, name_map(Lower (column_name col_expr) \<mapsto> column_name col_expr),
               cis_erase (column_name col_expr) handled_columns))"

text \<open>Lines 425-434, one iteration: the generated name of an entry grows by one column.\<close>

definition unpivot_generated_name ::
  "Externals \<Rightarrow> (string \<rightharpoonup> string) \<Rightarrow> Value \<Rightarrow> string \<Rightarrow> error + string" where
  "unpivot_generated_name ext name_map val generated_name =
     (case name_map (Lower (ToString ext val)) of
        None \<Rightarrow> Inl (InternalException ''Unpivot - could not find column name in name map'')
      | Some column \<Rightarrow>
          Inr ((if generated_name \<noteq> [] then generated_name @ ''_'' else generated_name)
                @ column))"

text \<open>Lines 423-436, one iteration: the display name of an entry.\<close>

definition unpivot_entry_name ::
  "Externals \<Rightarrow> (string \<rightharpoonup> string) \<Rightarrow> PivotColumnEntry \<Rightarrow> Value list \<Rightarrow> error + Value list" where
  "unpivot_entry_name ext name_map entry unpivot_names_acc =
     (case for_each (unpivot_generated_name ext name_map) (entry_values entry) [] of
        Inl e \<Rightarrow> Inl e
      | Inr generated_name \<Rightarrow>
          Inr (unpivot_names_acc @
                 [VARCHAR (if entry_alias entry \<noteq> [] then entry_alias entry
                           else generated_name)]))"

text \<open>
  Lines 441-443, one iteration: the column of the entry at value position \<open>v_idx\<close>;
  \<^verbatim>\<open>entry.values[v_idx]\<close> is read unchecked.
\<close>

definition unpivot_entry_expression ::
  "Externals \<Rightarrow> nat \<Rightarrow> PivotColumnEntry \<Rightarrow> ParsedExpression list
    \<Rightarrow> error + ParsedExpression list" where
  "unpivot_entry_expression ext v_idx entry expressions =
     (if length (entry_values entry) \<le> v_idx then Inl OutOfBoundsAccess
      else Inr (expressions @ [ColumnRef (ToString ext (entry_values entry ! v_idx))]))"

text \<open>
  Lines 437-445: one list of column references per value position of the first entry;
  \<^verbatim>\<open>unpivot.entries[0]\<close> is read unchecked.
\<close>

definition unpivot_build_expressions ::
  "Externals \<Rightarrow> PivotColumnEntry list \<Rightarrow> error + ParsedExpression list list" where
  "unpivot_build_expressions ext unpivot_entries =
     (if unpivot_entries = [] then Inl OutOfBoundsAccess
      else
        for_each
          (\<lambda>v_idx unpivot_expressions.
             case for_each (unpivot_entry_expression ext v_idx) unpivot_entries [] of
               Inl e \<Rightarrow> Inl e
             | Inr expressions \<Rightarrow> Inr (unpivot_expressions @ [expressions]))
          [0 ..< length (entry_values (unpivot_entries ! 0))] [])"

text \<open>
  Lines 461-480, one iteration: the unnest of the \<open>i\<close>-th value list and, unless nulls are
  included, its \<^verbatim>\<open>IS NOT NULL\<close> filter, conjoined to \<^verbatim>\<open>where_clause\<close>.
\<close>

definition unpivot_value_column ::
  "PivotRef \<Rightarrow> nat \<times> ParsedExpression list \<Rightarrow> SelectNode \<times> ParsedExpression option
    \<Rightarrow> SelectNode \<times> ParsedExpression option" where
  "unpivot_value_column ref ix st =
     (case (ix, st) of ((i, expressions), (select_node, where_filter)) \<Rightarrow>
        let list_expr = FunctionExpression [] ''list_value'' expressions;
            unnest_name = (if i < length (column_name_alias ref) then column_name_alias ref ! i
                           else unpivot_names ref ! i);
            unnest_val_expr = FunctionExpression unnest_name ''unnest'' [list_expr];
            select_node = push_select unnest_val_expr select_node
        in if \<not> include_nulls ref then
             let filter = OperatorExpression [] OPERATOR_IS_NOT_NULL [ColumnRef unnest_name]
             in (select_node,
                 case where_filter of
                   Some w \<Rightarrow> Some (ConjunctionExpression [] CONJUNCTION_AND [w, filter])
                 | None \<Rightarrow> Some filter)
           else (select_node, where_filter))"

text \<open>
  \<^verbatim>\<open>Binder::BindUnpivot\<close> (lines 356-482). \<^verbatim>\<open>where_clause\<close> is passed by reference: the result
  holds its new state beside the select node.
\<close>

definition BindUnpivot ::
  "Externals \<Rightarrow> StarBinder \<Rightarrow> PivotRef \<Rightarrow> ParsedExpression list \<Rightarrow> ParsedExpression option
    \<Rightarrow> error + SelectNode \<times> ParsedExpression option" where
  "BindUnpivot ext child_binder ref all_columns where_filter =
     (case D_ASSERT ext (groups ref = []) ''ref.groups.empty()'' of
        Inl e \<Rightarrow> Inl e
      | Inr _ \<Rightarrow>
     (case D_ASSERT ext (length (pivots ref) = 1) ''ref.pivots.size() == 1'' of
        Inl e \<Rightarrow> Inl e
      | Inr _ \<Rightarrow>
     (let select_node = set_from_table (source ref) empty_SelectNode
      in if pivots ref = [] then Inl OutOfBoundsAccess
         else
     (let unpivot = pivots ref ! 0
      in case for_each (unpivot_expand_entry ext child_binder) (entries unpivot) [] of
           Inl e \<Rightarrow> Inl e
         | Inr new_entries \<Rightarrow>
     (let unpivot = unpivot\<lparr>entries := new_entries\<rparr>;
          handled_columns = unpivot_handled_columns ext (entries unpivot)
      in case for_each unpivot_source_column all_columns
                (select_node, Map.empty, handled_columns) of
           Inl e \<Rightarrow> Inl e
         | Inr (select_node, name_map, handled_columns) \<Rightarrow>
     (if handled_columns \<noteq> {} then
        Inl (BinderException
              ''Column referenced in UNPIVOT but no matching entry was found in the table'')
      else
     (case for_each (unpivot_entry_name ext name_map) (entries unpivot) [] of
        Inl e \<Rightarrow> Inl e
      | Inr unpivot_names_list \<Rightarrow>
     (case unpivot_build_expressions ext (entries unpivot) of
        Inl e \<Rightarrow> Inl e
      | Inr unpivot_expressions \<Rightarrow>
     (if column_unpivot_names unpivot = [] then Inl OutOfBoundsAccess
      else
     (let unnest_name_expr =
            FunctionExpression (column_unpivot_names unpivot ! 0) ''unnest''
              [ConstantExpression [] (LIST unpivot_names_list)];
          select_node = push_select unnest_name_expr select_node
      in if length (unpivot_names ref) \<noteq> length unpivot_expressions then
           Inl (BinderException ''UNPIVOT name count mismatch'')
         else
           Inr (fold (unpivot_value_column ref)
                  (zip [0 ..< length unpivot_expressions] unpivot_expressions)
                  (select_node, where_filter))))))))))))"

section \<open>The entry point\<close>

text \<open>
  The enclosing binder (\<^verbatim>\<open>this\<close>): its sub-query registry (\<^verbatim>\<open>bind_context\<close>) and its
  correlated columns. A registered sub-query is its index, its alias, its column aliases
  and its bound node. Bound nodes \<open>'b\<close>, child binders \<open>'c\<close> and the correlated columns
  \<open>'k\<close> belong to the name-resolution binder, which is outside the sources.
\<close>

type_synonym 'b BindContext = "(nat \<times> string \<times> string list \<times> 'b) list"

record ('b, 'k) Binder =
  bind_context :: "'b BindContext"
  correlated_columns :: 'k

datatype ('b, 'c) BoundTableRef = BoundSubqueryRef 'c 'b

text \<open>
  The name-resolution binder as the entry point uses it; every operation may throw:
  \<^item> \<open>BindSource\<close>: a fresh binder binds a copy of the source and can then expand stars;
  \<^item> \<open>BindNode\<close>: a fresh child of \<^verbatim>\<open>this\<close> binds a select node, giving the child and the
    bound node;
  \<^item> \<open>BindSelectNode\<close>: a fresh child of \<^verbatim>\<open>this\<close>, whose own registry is given, binds a
    select node over a bound table;
  \<^item> \<open>GetRootIndex\<close>, \<open>MoveCorrelatedExpressions\<close>;
  \<^item> \<open>AddSubquery\<close>: \<^verbatim>\<open>BindContext::AddSubquery\<close>, giving the registry with the sub-query
    registered.
\<close>

record ('b, 'c, 'k) BinderOps =
  BindSource :: "TableRef \<Rightarrow> error + StarBinder"
  BindNode :: "('b, 'k) Binder \<Rightarrow> SelectNode \<Rightarrow> error + 'c \<times> 'b"
  BindSelectNode ::
    "('b, 'k) Binder \<Rightarrow> 'b BindContext \<Rightarrow> SelectNode \<Rightarrow> ('b, 'c) BoundTableRef \<Rightarrow> error + 'c \<times> 'b"
  GetRootIndex :: "'b \<Rightarrow> nat"
  MoveCorrelatedExpressions :: "'c \<Rightarrow> 'k \<Rightarrow> 'c \<times> 'k"
  AddSubquery ::
    "nat \<Rightarrow> string \<Rightarrow> string list \<Rightarrow> 'b \<Rightarrow> 'b BindContext \<Rightarrow> error + 'b BindContext"

text \<open>Lines 501-505: the rewrite; only the unpivot path can produce a \<^verbatim>\<open>where_clause\<close>.\<close>

definition Bind_rewrite ::
  "Externals \<Rightarrow> StarBinder \<Rightarrow> PivotRef \<Rightarrow> ParsedExpression list
    \<Rightarrow> error + SelectNode \<times> ParsedExpression option" where
  "Bind_rewrite ext star_binder ref all_columns =
     (if aggregates ref \<noteq> [] then
        (case BindPivot ext ref all_columns of
           Inl e \<Rightarrow> Inl e
         | Inr select_node \<Rightarrow> Inr (select_node, None))
      else BindUnpivot ext star_binder ref all_columns None)"

text \<open>Line 531: the registration in the enclosing scope, the last step.\<close>

definition Bind_register ::
  "('b, 'c, 'k) BinderOps \<Rightarrow> ('b, 'k) Binder \<Rightarrow> nat \<Rightarrow> string \<Rightarrow> string list \<Rightarrow> 'b
    \<Rightarrow> ('b, 'c) BoundTableRef \<Rightarrow> (error + ('b, 'c) BoundTableRef) \<times> ('b, 'k) Binder" where
  "Bind_register ops this root_index subquery_alias names bound_select_node result =
     (case AddSubquery ops root_index subquery_alias names bound_select_node (bind_context this) of
        Inl e \<Rightarrow> (Inl e, this)
      | Inr ctx \<Rightarrow> (Inr result, this\<lparr>bind_context := ctx\<rparr>))"

text \<open>The query of lines 523-525: \<^verbatim>\<open>SELECT * WHERE where_clause\<close>, its source given at binding.\<close>

definition where_query :: "ParsedExpression \<Rightarrow> SelectNode" where
  "where_query w = SelectNode [StarExpression []] None (Some w) []"

text \<open>
  \<^verbatim>\<open>Binder::Bind(PivotRef &)\<close> (lines 484-533): the result, or the exception, and the state of
  \<^verbatim>\<open>this\<close> afterwards.
\<close>

definition Bind ::
  "('b, 'c, 'k) BinderOps \<Rightarrow> Externals \<Rightarrow> PivotRef \<Rightarrow> ('b, 'k) Binder
    \<Rightarrow> (error + ('b, 'c) BoundTableRef) \<times> ('b, 'k) Binder" where
  "Bind ops ext ref this =
     (case source ref of
        None \<Rightarrow> (Inl (InternalException ''Pivot without a source!?''), this)
      | Some copied_source \<Rightarrow>
     (case BindSource ops copied_source of
        Inl e \<Rightarrow> (Inl e, this)
      | Inr star_binder \<Rightarrow>
     (case star_binder (StarExpression []) of
        Inl e \<Rightarrow> (Inl e, this)
      | Inr all_columns \<Rightarrow>
     (case Bind_rewrite ext star_binder ref all_columns of
        Inl e \<Rightarrow> (Inl e, this)
      | Inr (select_node, where_filter) \<Rightarrow>
     (case BindNode ops this select_node of
        Inl e \<Rightarrow> (Inl e, this)
      | Inr (child_binder, bound_select_node) \<Rightarrow>
     (let root_index = GetRootIndex ops bound_select_node
      in case MoveCorrelatedExpressions ops child_binder (correlated_columns this) of
           (child_binder, correlated) \<Rightarrow>
     (let this = this\<lparr>correlated_columns := correlated\<rparr>;
          result = BoundSubqueryRef child_binder bound_select_node;
          subquery_alias = (if ref_alias ref = [] then ''__unnamed_pivot'' else ref_alias ref);
          names = column_name_alias ref
      in case where_filter of
           None \<Rightarrow> Bind_register ops this root_index subquery_alias names bound_select_node result
         | Some w \<Rightarrow>
             (case AddSubquery ops root_index subquery_alias names bound_select_node [] of
                Inl e \<Rightarrow> (Inl e, this)
              | Inr child_context \<Rightarrow>
                  (case BindSelectNode ops this child_context (where_query w) result of
                     Inl e \<Rightarrow> (Inl e, this)
                   | Inr (child_binder, bound_select_node) \<Rightarrow>
                       Bind_register ops this (GetRootIndex ops bound_select_node)
                         subquery_alias names bound_select_node
                         (BoundSubqueryRef child_binder bound_select_node))))))))))"

section \<open>Notions of the specification\<close>

text \<open>
  The specification speaks of the underscore-join of a list of strings: the strings in
  order, with one underscore between neighbours.
\<close>

fun underscore_join :: "string list \<Rightarrow> string" where
  "underscore_join [] = []"
| "underscore_join [s] = s"
| "underscore_join (s # t # ss) = s @ ''_'' @ underscore_join (t # ss)"

text \<open>
  The name the specification gives one level of a pivot value: the alias of the entry when
  it has one, else the underscore-join of the entry's stringified values.
\<close>

definition entry_display_name :: "Externals \<Rightarrow> PivotColumnEntry \<Rightarrow> string" where
  "entry_display_name ext entry =
     (if entry_alias entry \<noteq> [] then entry_alias entry
      else underscore_join (map (ToString ext) (entry_values entry)))"

text \<open>
  The element the specification expects for one combination of entries, one entry per
  pivot column: all values in order, named by the underscore-join of the level names.
\<close>

definition combination_element :: "Externals \<Rightarrow> PivotColumnEntry list \<Rightarrow> PivotValueElement" where
  "combination_element ext combo =
     \<lparr>pv_values = concat (map entry_values combo),
      pv_name = underscore_join (map (entry_display_name ext) combo)\<rparr>"

text \<open>Every entry has one value per pivot expression of its column.\<close>

definition arities_match :: "PivotRef \<Rightarrow> bool" where
  "arities_match ref =
     list_all (\<lambda>pivot.
        list_all (\<lambda>entry. length (entry_values entry) = length (pivot_expressions pivot))
          (entries pivot))
       (pivots ref)"

text \<open>
  A join that starts at the first non-empty part: the empty parts before it, and their
  underscores, are left out; from there on it is the underscore-join.
\<close>

definition join_from_nonempty :: "string list \<Rightarrow> string" where
  "join_from_nonempty ss = underscore_join (dropWhile (\<lambda>s. s = []) ss)"

text \<open>
  The name of one level and the element of one combination of entries, with every join
  started at its first non-empty part.
\<close>

definition enumerated_level_name :: "Externals \<Rightarrow> PivotColumnEntry \<Rightarrow> string" where
  "enumerated_level_name ext entry =
     (if entry_alias entry \<noteq> [] then entry_alias entry
      else join_from_nonempty (map (ToString ext) (entry_values entry)))"

definition enumerated_element :: "Externals \<Rightarrow> PivotColumnEntry list \<Rightarrow> PivotValueElement" where
  "enumerated_element ext combo =
     \<lparr>pv_values = concat (map entry_values combo),
      pv_name = join_from_nonempty (map (enumerated_level_name ext) combo)\<rparr>"

text \<open>A list of two or more parts starts with a non-empty part (a shorter list always does).\<close>

fun starts_nonempty :: "string list \<Rightarrow> bool" where
  "starts_nonempty [] = True"
| "starts_nonempty [s] = True"
| "starts_nonempty (s # t # ss) = (s \<noteq> [])"

text \<open>
  Every join in the name of a combination starts with a non-empty part: the level names,
  and the stringified values of every entry without an alias.
\<close>

definition joins_exactly :: "Externals \<Rightarrow> PivotColumnEntry list \<Rightarrow> bool" where
  "joins_exactly ext combo =
     (starts_nonempty (map (entry_display_name ext) combo)
      \<and> list_all (\<lambda>entry. entry_alias entry = [] \<longrightarrow>
            starts_nonempty (map (ToString ext) (entry_values entry))) combo)"

section \<open>How the enumerator builds a name\<close>

text \<open>
  One step of the enumerator's naming (lines 37-41 and 44-48): a part is appended after an
  underscore, unless the name so far is empty, in which case the part replaces it.
\<close>

definition join_step :: "string \<Rightarrow> string \<Rightarrow> string" where
  "join_step acc s = (if acc = [] then s else acc @ ''_'' @ s)"

definition level_name :: "Externals \<Rightarrow> PivotColumnEntry \<Rightarrow> string" where
  "level_name ext entry =
     (if entry_alias entry \<noteq> [] then entry_alias entry
      else foldl join_step [] (map (ToString ext) (entry_values entry)))"

section \<open>Example inputs\<close>

text \<open>
  A stringification for the examples: a string value prints as itself, an integer in
  decimal.
\<close>

fun example_ToString :: "Value \<Rightarrow> string" where
  "example_ToString (VARCHAR s) = s"
| "example_ToString (INTEGER i) =
     (if i < 0 then ''-'' @ to_string (nat (- i)) else to_string (nat i))"
| "example_ToString (LIST vs) = ''['' @ concat (map example_ToString vs) @ '']''"

definition example_ext :: Externals where
  "example_ext =
     \<lparr>ToString = example_ToString, ExpressionToString = (\<lambda>e. ''expr''), debug = True,
      GetType = (\<lambda>n. Inl (ExternalError ''type not found'')),
      moved_Value = (\<lambda>v. v), moved_string = (\<lambda>s. [])\<rparr>"

text \<open>An entry \<^verbatim>\<open>(v1, ..., vn)\<close> of an \<^verbatim>\<open>IN\<close> list, without alias.\<close>

definition in_entry :: "Value list \<Rightarrow> PivotColumnEntry" where
  "in_entry vs = \<lparr>entry_values = vs, star_expr = None, entry_alias = []\<rparr>"

text \<open>A pivot column \<^verbatim>\<open>(c1, ..., cn) IN (entries)\<close>.\<close>

definition pivot_on :: "string list \<Rightarrow> PivotColumnEntry list \<Rightarrow> PivotColumn" where
  "pivot_on cols es =
     \<lparr>pivot_expressions = map ColumnRef cols, column_unpivot_names = [], entries = es,
      pivot_enum = []\<rparr>"

text \<open>\<^verbatim>\<open>PIVOT t ON pivots USING aggregates\<close>.\<close>

definition pivot_ref :: "PivotColumn list \<Rightarrow> ParsedExpression list \<Rightarrow> PivotRef" where
  "pivot_ref ps aggs =
     \<lparr>source = Some (BaseTableRef ''t''), aggregates = aggs, unpivot_names = [], pivots = ps,
      groups = [], column_name_alias = [], include_nulls = False, ref_alias = []\<rparr>"

definition sum_amount :: ParsedExpression where
  "sum_amount = FunctionExpression [] ''sum'' [ColumnRef ''amount'']"

text \<open>\<^verbatim>\<open>PIVOT t ON a IN (''), b IN ('x') USING sum(amount)\<close>.\<close>

definition empty_name_ref :: PivotRef where
  "empty_name_ref =
     pivot_ref [pivot_on [''a''] [in_entry [VARCHAR []]],
                pivot_on [''b''] [in_entry [VARCHAR ''x'']]]
       [sum_amount]"

text \<open>\<^verbatim>\<open>PIVOT t ON quarter IN ('Q1', 'Q2'), region IN ('A', 'B') USING sum(amount)\<close>.\<close>

definition quarter_region_ref :: PivotRef where
  "quarter_region_ref =
     pivot_ref [pivot_on [''quarter''] [in_entry [VARCHAR ''Q1''], in_entry [VARCHAR ''Q2'']],
                pivot_on [''region''] [in_entry [VARCHAR ''A''], in_entry [VARCHAR ''B'']]]
       [sum_amount]"


text \<open>\<^verbatim>\<open>PIVOT t USING sum(amount)\<close>: aggregates, and no pivot column.\<close>

definition no_pivots_ref :: PivotRef where
  "no_pivots_ref = pivot_ref [] [sum_amount]"

text \<open>\<^verbatim>\<open>x IN ((a, b), (a, b))\<close>: one pivot expression, two entries of two values.\<close>

definition repeated_pair_column :: PivotColumn where
  "repeated_pair_column =
     pivot_on [''x''] [in_entry [VARCHAR ''a'', VARCHAR ''b''],
                       in_entry [VARCHAR ''a'', VARCHAR ''b'']]"


text \<open>\<^verbatim>\<open>c IN ('a', 'b')\<close>, and a declaration of 64 such pivot columns.\<close>

definition two_entry_column :: PivotColumn where
  "two_entry_column = pivot_on [''c''] [in_entry [VARCHAR ''a''], in_entry [VARCHAR ''b'']]"

definition wide_ref :: PivotRef where
  "wide_ref = pivot_ref (replicate 64 two_entry_column) [sum_amount]"

section \<open>Notions of the specification for UNPIVOT and the entry point\<close>

text \<open>The name of the \<open>i\<close>-th value column (line 466): its column alias, else its name.\<close>

definition value_column_name :: "PivotRef \<Rightarrow> nat \<Rightarrow> string" where
  "value_column_name ref i =
     (if i < length (column_name_alias ref) then column_name_alias ref ! i
      else unpivot_names ref ! i)"

text \<open>\<^verbatim>\<open>name IS NOT NULL\<close>, and the conjunction of a filter to an optional one before it.\<close>

definition is_not_null :: "string \<Rightarrow> ParsedExpression" where
  "is_not_null name = OperatorExpression [] OPERATOR_IS_NOT_NULL [ColumnRef name]"

definition conjoin :: "ParsedExpression option \<Rightarrow> ParsedExpression \<Rightarrow> ParsedExpression option" where
  "conjoin w f =
     Some (case w of None \<Rightarrow> f | Some a \<Rightarrow> ConjunctionExpression [] CONJUNCTION_AND [a, f])"

text \<open>
  The filter the specification expects of the unpivot path, starting from the filter \<open>w\<close>
  of the caller: with nulls included it is \<open>w\<close>; otherwise one \<^verbatim>\<open>IS NOT NULL\<close> per value
  column is conjoined to it, in order.
\<close>

definition null_filter :: "PivotRef \<Rightarrow> ParsedExpression option \<Rightarrow> ParsedExpression option" where
  "null_filter ref w =
     (if include_nulls ref then w
      else foldl conjoin w
             (map (\<lambda>i. is_not_null (value_column_name ref i)) [0 ..< length (unpivot_names ref)]))"

text \<open>
  The columns the entries of an UNPIVOT name, as the case-insensitive containers hold them.
\<close>

definition named_columns :: "Externals \<Rightarrow> PivotColumnEntry list \<Rightarrow> string set" where
  "named_columns ext es =
     (\<Union>entry \<in> set es. (\<lambda>v. Lower (ToString ext v)) ` set (entry_values entry))"

text \<open>The alias under which the result is registered (line 515).\<close>

definition subquery_alias_of :: "PivotRef \<Rightarrow> string" where
  "subquery_alias_of ref = (if ref_alias ref = [] then ''__unnamed_pivot'' else ref_alias ref)"

section \<open>Example inputs for UNPIVOT and the entry point\<close>

text \<open>
  \<^verbatim>\<open>UNPIVOT t ON entries INTO NAME name_column VALUE value_columns\<close>, with or without nulls.
\<close>

definition unpivot_on :: "string \<Rightarrow> PivotColumnEntry list \<Rightarrow> PivotColumn" where
  "unpivot_on name_column es =
     \<lparr>pivot_expressions = [], column_unpivot_names = [name_column], entries = es,
      pivot_enum = []\<rparr>"

definition unpivot_ref :: "PivotColumn \<Rightarrow> string list \<Rightarrow> bool \<Rightarrow> PivotRef" where
  "unpivot_ref unpivot value_columns nulls =
     \<lparr>source = Some (BaseTableRef ''t''), aggregates = [], unpivot_names = value_columns,
      pivots = [unpivot], groups = [], column_name_alias = [], include_nulls = nulls,
      ref_alias = []\<rparr>"

text \<open>
  \<^verbatim>\<open>UNPIVOT t ON (q1, q2) INTO NAME quarter VALUE amount\<close> over \<^verbatim>\<open>t(id, q1, q2)\<close>, the select
  node it is rewritten to, and its filter.
\<close>

definition quarters_ref :: PivotRef where
  "quarters_ref =
     unpivot_ref (unpivot_on ''quarter'' [in_entry [VARCHAR ''q1''], in_entry [VARCHAR ''q2'']])
       [''amount''] False"

definition quarters_columns :: "ParsedExpression list" where
  "quarters_columns = [ColumnRef ''id'', ColumnRef ''q1'', ColumnRef ''q2'']"

definition quarters_node :: SelectNode where
  "quarters_node =
     SelectNode
       [ColumnRef ''id'',
        FunctionExpression ''quarter'' ''unnest''
          [ConstantExpression [] (LIST [VARCHAR ''q1'', VARCHAR ''q2''])],
        FunctionExpression ''amount'' ''unnest''
          [FunctionExpression [] ''list_value'' [ColumnRef ''q1'', ColumnRef ''q2'']]]
       (Some (BaseTableRef ''t'')) None []"

definition quarters_filter :: ParsedExpression where
  "quarters_filter = OperatorExpression [] OPERATOR_IS_NOT_NULL [ColumnRef ''amount'']"

text \<open>
  \<^verbatim>\<open>UNPIVOT t ON (a), (b, c) INTO NAME n VALUE v\<close> over \<^verbatim>\<open>t(id, a, b, c)\<close>: the second entry
  is longer than the first.
\<close>

definition ragged_ref :: PivotRef where
  "ragged_ref =
     unpivot_ref
       (unpivot_on ''n'' [in_entry [VARCHAR ''a''], in_entry [VARCHAR ''b'', VARCHAR ''c'']])
       [''v''] False"

definition ragged_columns :: "ParsedExpression list" where
  "ragged_columns = [ColumnRef ''id'', ColumnRef ''a'', ColumnRef ''b'', ColumnRef ''c'']"

text \<open>
  \<^verbatim>\<open>UNPIVOT t ON (a, b), (c) INTO NAME n VALUE v, w\<close> over \<^verbatim>\<open>t(id, a, b, c)\<close>: the second
  entry is shorter than the first.
\<close>

definition short_ref :: PivotRef where
  "short_ref =
     unpivot_ref
       (unpivot_on ''n'' [in_entry [VARCHAR ''a'', VARCHAR ''b''], in_entry [VARCHAR ''c'']])
       [''v'', ''w''] False"

text \<open>
  A name-resolution binder for the examples: a bound node records its root index, the
  select node and the bound node beneath it; the root index is the number of sub-queries
  the enclosing scope holds (one more for the wrapping level); registration appends.
\<close>

datatype example_bound = Bound nat SelectNode "example_bound option"

fun bound_index :: "example_bound \<Rightarrow> nat" where
  "bound_index (Bound i node child) = i"

definition example_ops :: "ParsedExpression list \<Rightarrow> (example_bound, unit, unit) BinderOps" where
  "example_ops columns =
     \<lparr>BindSource = (\<lambda>t. Inr (\<lambda>star. Inr columns)),
      BindNode = (\<lambda>this node. Inr ((), Bound (length (bind_context this)) node None)),
      BindSelectNode = (\<lambda>this ctx node table.
         case table of BoundSubqueryRef c b \<Rightarrow>
           Inr ((), Bound (Suc (length (bind_context this))) node (Some b))),
      GetRootIndex = bound_index,
      MoveCorrelatedExpressions = (\<lambda>c k. (c, k)),
      AddSubquery = (\<lambda>i a names b ctx. Inr (ctx @ [(i, a, names, b)]))\<rparr>"

definition empty_Binder :: "(example_bound, unit) Binder" where
  "empty_Binder = \<lparr>bind_context = [], correlated_columns = ()\<rparr>"

section \<open>The internal names of a rewrite\<close>

text \<open>The names a counter gives out after the value \<open>c\<close>: \<open>n\<close> names, numbered from \<open>c + 1\<close>.\<close>

definition counter_names :: "string \<Rightarrow> nat \<Rightarrow> nat \<Rightarrow> string list" where
  "counter_names pfx c n = map (\<lambda>k. pfx @ to_string k) [Suc c ..< Suc c + n]"

text \<open>
  The aliases the loops of stage 1 leave on a list of expressions, the counter starting at
  \<open>c\<close>: an expression keeps its alias, one without alias gets the next counter name.
\<close>

fun assigned_aliases :: "string \<Rightarrow> nat \<Rightarrow> ParsedExpression list \<Rightarrow> string list" where
  "assigned_aliases pfx c [] = []"
| "assigned_aliases pfx c (e # es) =
     (if expr_alias e = [] then (pfx @ to_string (Suc c)) # assigned_aliases pfx (Suc c) es
      else expr_alias e # assigned_aliases pfx c es)"

text \<open>The number of pivot expressions of a declaration, over all its pivot columns.\<close>

definition pivot_expression_count :: "PivotColumn list \<Rightarrow> nat" where
  "pivot_expression_count ps = sum_list (map (\<lambda>pivot. length (pivot_expressions pivot)) ps)"

text \<open>
  The bind state after stage 1, and after stage 3, for the group select list \<open>sl\<close> of stage 1.
\<close>

definition stage1_state ::
  "Externals \<Rightarrow> PivotBindState \<Rightarrow> ParsedExpression list \<Rightarrow> ParsedExpression list
    \<Rightarrow> PivotBindState" where
  "stage1_state ext bs sl aggs =
     bs\<lparr>group_names := group_names bs @ map (GetName ext) sl,
        internal_group_names :=
          internal_group_names bs @ assigned_aliases ''__internal_pivot_group'' 0 sl,
        aggregate_names := aggregate_names bs @ map expr_alias aggs,
        internal_aggregate_names :=
          internal_aggregate_names bs
            @ counter_names ''__internal_pivot_aggregate'' 0 (length aggs)\<rparr>"

definition stages_state :: "Externals \<Rightarrow> ParsedExpression list \<Rightarrow> PivotRef \<Rightarrow> PivotBindState" where
  "stages_state ext sl ref =
     \<lparr>internal_group_names = assigned_aliases ''__internal_pivot_group'' 0 sl,
      group_names = map (GetName ext) sl,
      aggregate_names = map expr_alias (aggregates ref),
      internal_aggregate_names =
        counter_names ''__internal_pivot_aggregate'' 0 (length (aggregates ref)),
      internal_pivot_names =
        counter_names ''__internal_pivot_name'' 0 (pivot_expression_count (pivots ref)),
      internal_map_names =
        counter_names ''__internal_pivot_map'' 0 (pivot_expression_count (pivots ref))\<rparr>"

text \<open>
  All internal names of one rewrite: the internal group aliases, the aliases of the pivot
  expressions (which stage 1 leaves in \<^verbatim>\<open>ref.pivots\<close> as column references), the internal
  aggregate aliases, the pivot-list names and the map names.
\<close>

definition internal_names :: "PivotBindState \<Rightarrow> PivotRef \<Rightarrow> string list" where
  "internal_names bind_state ref =
     internal_group_names bind_state
       @ map column_name (concat (map pivot_expressions (pivots ref)))
       @ internal_aggregate_names bind_state
       @ internal_pivot_names bind_state
       @ internal_map_names bind_state"

section \<open>Example inputs for the stages\<close>

text \<open>
  \<^verbatim>\<open>PIVOT sales ON quarter IN ('Q1', 'Q2') USING sum(amount)\<close> over
  \<^verbatim>\<open>sales(region, quarter, amount)\<close>, with the columns its validation handles; and the same
  over a table whose first column is named \<^verbatim>\<open>__internal_pivot_group1\<close>.
\<close>

definition sales_ref :: PivotRef where
  "sales_ref =
     pivot_ref [pivot_on [''quarter''] [in_entry [VARCHAR ''Q1''], in_entry [VARCHAR ''Q2'']]]
       [sum_amount]"

definition sales_columns :: "ParsedExpression list" where
  "sales_columns = [ColumnRef ''region'', ColumnRef ''quarter'', ColumnRef ''amount'']"

definition sales_handled :: case_insensitive_set_t where
  "sales_handled = {''quarter'', ''amount''}"

definition reserved_columns :: "ParsedExpression list" where
  "reserved_columns =
     [ColumnRef ''__internal_pivot_group1'', ColumnRef ''quarter'', ColumnRef ''amount'']"

text \<open>A release build: \<^verbatim>\<open>D_ASSERT\<close> is compiled out.\<close>

definition release_ext :: Externals where
  "release_ext = example_ext\<lparr>debug := False\<rparr>"

text \<open>
  Two aggregates over one pivot expression, \<^verbatim>\<open>... USING sum(amount), max(amount)\<close>; and one
  aggregate over two pivot expressions, \<^verbatim>\<open>... ON (quarter, region) IN (('Q1', 'A'))\<close>.
\<close>

definition max_amount :: ParsedExpression where
  "max_amount = FunctionExpression [] ''max'' [ColumnRef ''amount'']"

definition two_aggregates_ref :: PivotRef where
  "two_aggregates_ref =
     pivot_ref [pivot_on [''quarter''] [in_entry [VARCHAR ''Q1''], in_entry [VARCHAR ''Q2'']]]
       [sum_amount, max_amount]"

definition two_pivots_ref :: PivotRef where
  "two_pivots_ref =
     pivot_ref [pivot_on [''quarter'', ''region''] [in_entry [VARCHAR ''Q1'', VARCHAR ''A'']]]
       [sum_amount]"

section \<open>Notions of the specification for stage 4\<close>

text \<open>
  \<^verbatim>\<open>array_extract(map_extract(internal_map, v), 1) AS name\<close>, the expression the specification
  expects of stage 4 for a pivot value \<open>v\<close> named \<open>name\<close> and a map column.
\<close>

definition map_extract_expr :: "string \<Rightarrow> Value \<Rightarrow> string \<Rightarrow> ParsedExpression" where
  "map_extract_expr internal_map v name =
     FunctionExpression name ''array_extract''
       [FunctionExpression [] ''map_extract'' [ColumnRef internal_map, ConstantExpression [] v],
        ConstantExpression [] (INTEGER 1)]"


text \<open>The \<open>gr\<close>-th group column of stage 4: the internal alias under its display name.\<close>

definition group_column :: "PivotBindState \<Rightarrow> nat \<Rightarrow> ParsedExpression" where
  "group_column bind_state gr =
     ColumnRefExpression (group_names bind_state ! gr) [] (internal_group_names bind_state ! gr)"

text \<open>Every entry of a pivot column has one value per pivot expression.\<close>

definition arity_ok :: "PivotColumn \<Rightarrow> bool" where
  "arity_ok pivot =
     list_all (\<lambda>entry. length (entry_values entry) = length (pivot_expressions pivot))
       (entries pivot)"


section \<open>Further notions\<close>

text \<open>The number of combinations of a list of pivot columns: the product of their entry counts.\<close>

definition combination_count :: "PivotColumn list \<Rightarrow> nat" where
  "combination_count ps = prod_list (map (\<lambda>pivot. length (entries pivot)) ps)"

text \<open>The column references of an expression, itself included, parents before children.\<close>

function column_refs :: "ParsedExpression \<Rightarrow> ParsedExpression list" where
  "column_refs e =
     (if is_COLUMN_REF e then [e] else []) @ concat (map column_refs (EnumerateChildren e))"
  by pat_completeness auto
termination
  by (relation "measure size") (auto dest: size_EnumerateChildren)

declare column_refs.simps [simp del]

text \<open>
  What the extractor is expected to do with the column references of an expression: fail
  when one of them is qualified, and otherwise add their names to the handled columns.
\<close>

definition qualified_error :: error where
  "qualified_error = BinderException ''PIVOT expression cannot contain qualified columns''"

definition extraction ::
  "ParsedExpression list \<Rightarrow> case_insensitive_set_t \<Rightarrow> error + case_insensitive_set_t" where
  "extraction refs h =
     (if list_ex (\<lambda>c. qualifier c \<noteq> []) refs then Inl qualified_error
      else Inr (h \<union> set (map (\<lambda>c. Lower (column_name c)) refs)))"

section \<open>Lemmas shared by the claims\<close>

lemma for_each_not_error:
  "(\<And>x s. x \<in> set xs \<Longrightarrow> body x s \<noteq> Inl err) \<Longrightarrow> for_each body xs s \<noteq> Inl err"
  by (induction xs arbitrary: s) (auto split: sum.splits)

lemma limit_not_reached_by_one: "\<not> PIVOT_EXPRESSION_LIMIT \<le> 1"
  by (simp add: PIVOT_EXPRESSION_LIMIT_def word_le_nat_alt)

lemma ExtractPivotExpressions_ColumnRef:
  "ExtractPivotExpressions (ColumnRef n) h = Inr (cis_insert n h)"
  by (subst ExtractPivotExpressions.simps) (simp add: ColumnRef_def)

lemma ExtractPivotExpressions_Function:
  "ExtractPivotExpressions (FunctionExpression a f cs) h = for_each ExtractPivotExpressions cs h"
  by (subst ExtractPivotExpressions.simps) simp

lemma pivot_ref_sel:
  "pivots (pivot_ref ps aggs) = ps" "aggregates (pivot_ref ps aggs) = aggs"
  "groups (pivot_ref ps aggs) = []" "source (pivot_ref ps aggs) = Some (BaseTableRef ''t'')"
  by (simp_all add: pivot_ref_def)

lemma bind_sum_amount:
  "for_each bind_pivot_aggregate [sum_amount] h = Inr (cis_insert ''amount'' h)"
  by (simp add: bind_pivot_aggregate_def sum_amount_def ExtractPivotExpressions_Function
      ExtractPivotExpressions_ColumnRef)
     (simp add: ColumnRef_def)

lemma ConstructPivots_no_pivots:
  "pivots ref = [] \<Longrightarrow> ConstructPivots ext ref acc pivot_idx cur = Inl OutOfBoundsAccess"
  by (subst ConstructPivots.simps) simp

section \<open>What the first three stages leave in the bind state\<close>

lemma digit_char_inj:
  assumes "d < 10" "e < 10" "digit_char d = digit_char e"
  shows "d = e"
proof -
  have "distinct ''0123456789''" by simp
  moreover have "d < length ''0123456789''" "e < length ''0123456789''" using assms by simp_all
  ultimately show ?thesis
    using assms(3) unfolding digit_char_def by (simp only: nth_eq_iff_index_eq)
qed

lemma to_string_nonempty: "to_string n \<noteq> []"
  by (subst to_string.simps) simp

lemma to_string_inj: "to_string m = to_string n \<Longrightarrow> m = n"
proof (induction m arbitrary: n rule: to_string.induct)
  case (1 m)
  show ?case
  proof (cases "m < 10")
    case True
    note m = this
    show ?thesis
    proof (cases "n < 10")
      case True
      with m 1(2) show ?thesis
        by (simp add: to_string.simps [of m] to_string.simps [of n] digit_char_inj)
    next
      case False
      with m 1(2) show ?thesis
        using to_string_nonempty [of "n div 10"]
        by (simp add: to_string.simps [of m] to_string.simps [of n])
    qed
  next
    case False
    note m = this
    show ?thesis
    proof (cases "n < 10")
      case True
      with m 1(2) show ?thesis
        using to_string_nonempty [of "m div 10"]
        by (simp add: to_string.simps [of m] to_string.simps [of n])
    next
      case False
      with m 1(2) have eq: "to_string (m div 10) = to_string (n div 10)"
        and d: "digit_char (m mod 10) = digit_char (n mod 10)"
        by (simp_all add: to_string.simps [of m] to_string.simps [of n])
      from 1(1) [OF m eq] have "m div 10 = n div 10" .
      moreover from d have "m mod 10 = n mod 10"
        by (intro digit_char_inj) simp_all
      ultimately show ?thesis by (metis div_mult_mod_eq)
    qed
  qed
qed

lemma distinct_counter_names: "distinct (counter_names pfx c n)"
  by (auto simp: counter_names_def distinct_map inj_on_def dest: to_string_inj)

lemma counter_names_Suc:
  "counter_names pfx c (Suc n) = (pfx @ to_string (Suc c)) # counter_names pfx (Suc c) n"
  by (simp add: counter_names_def upt_rec)

lemma counter_names_0 [simp]: "counter_names pfx c 0 = []"
  by (simp add: counter_names_def)

lemma length_counter_names [simp]: "length (counter_names pfx c n) = n"
  by (simp add: counter_names_def)

lemma assigned_aliases_no_alias:
  "list_all (\<lambda>e. expr_alias e = []) es \<Longrightarrow>
     assigned_aliases pfx c es = counter_names pfx c (length es)"
  by (induction es arbitrary: c) (simp_all add: counter_names_Suc)

lemma length_assigned_aliases [simp]: "length (assigned_aliases pfx c es) = length es"
  by (induction es arbitrary: c) simp_all

lemma select_list_push_select [simp]: "select_list (push_select e node) = select_list node @ [e]"
  by (cases node) simp

lemma select_list_push_group [simp]: "select_list (push_group e node) = select_list node"
  by (cases node) simp

lemma select_list_push_group_position [simp]:
  "select_list (push_group_position node) = select_list node"
  by (simp add: push_group_position_def)

lemma select_list_set_from_table [simp]: "select_list (set_from_table t node) = select_list node"
  by (cases node) simp

lemma select_list_set_select_list [simp]: "select_list (set_select_list es node) = es"
  by (cases node) simp

lemma expr_alias_set_alias [simp]: "expr_alias (set_alias a e) = a"
  by (cases e) simp_all

lemma stage1_implicit_groups:
  "for_each (stage1_implicit_group h) cols node = Inr node' \<Longrightarrow>
     \<exists>sl. select_list node' = select_list node @ sl \<and> set sl \<subseteq> set cols"
proof (induction cols arbitrary: node)
  case Nil
  then show ?case by simp
next
  case (Cons c cols)
  from Cons.prems obtain node1 where
      step: "stage1_implicit_group h c node = Inr node1"
      and rest: "for_each (stage1_implicit_group h) cols node1 = Inr node'"
    by (auto split: sum.splits)
  from Cons.IH [OF rest] obtain sl where
      sl: "select_list node' = select_list node1 @ sl" "set sl \<subseteq> set cols" by blast
  from step have "select_list node1 = select_list node \<or> select_list node1 = select_list node @ [c]"
    by (auto simp: stage1_implicit_group_def split: if_splits)
  then show ?case
  proof
    assume "select_list node1 = select_list node"
    with sl show ?thesis by (intro exI [of _ sl]) auto
  next
    assume "select_list node1 = select_list node @ [c]"
    with sl show ?thesis by (intro exI [of _ "c # sl"]) auto
  qed
qed

lemma stage1_explicit_groups:
  "select_list (fold stage1_explicit_group rows node) = select_list node @ map ColumnRef rows"
  by (induction rows arbitrary: node) (simp_all add: stage1_explicit_group_def)

lemma stage1_group_aliases_eq:
  "\<exists>sl'. stage1_group_aliases ext sl (c, bs) =
     (sl', c + length (filter (\<lambda>e. expr_alias e = []) sl),
      bs\<lparr>group_names := group_names bs @ map (GetName ext) sl,
         internal_group_names :=
           internal_group_names bs @ assigned_aliases ''__internal_pivot_group'' c sl\<rparr>)"
proof (induction sl arbitrary: c bs)
  case Nil
  then show ?case by simp
next
  case (Cons e sl)
  show ?case
  proof (cases "expr_alias e = []")
    case True
    from Cons.IH [of "Suc c" "bs\<lparr>group_names := group_names bs @ [GetName ext e],
        internal_group_names := internal_group_names bs @ [''__internal_pivot_group'' @ to_string (Suc c)]\<rparr>"]
    show ?thesis using True by (auto simp: Let_def)
  next
    case False
    from Cons.IH [of c "bs\<lparr>group_names := group_names bs @ [GetName ext e],
        internal_group_names := internal_group_names bs @ [expr_alias e]\<rparr>"]
    show ?thesis using False by (auto simp: Let_def)
  qed
qed

lemma stage1_pivot_expressions_eq:
  "\<exists>node'. stage1_pivot_expressions es (c, node) =
     (map ColumnRef (assigned_aliases ''__internal_pivot_ref'' c es),
      c + length (filter (\<lambda>e. expr_alias e = []) es), node')"
proof (induction es arbitrary: c node)
  case Nil
  then show ?case by simp
next
  case (Cons e es)
  show ?case
  proof (cases "expr_alias e = []")
    case True
    from Cons.IH [of "Suc c" "push_select (set_alias (''__internal_pivot_ref'' @ to_string (Suc c)) e)
        (push_group_position node)"]
    show ?thesis using True by (auto simp: Let_def)
  next
    case False
    from Cons.IH [of c "push_select e (push_group_position node)"]
    show ?thesis using False by (auto simp: Let_def)
  qed
qed

lemma assigned_aliases_append:
  "assigned_aliases pfx c (es @ fs) =
     assigned_aliases pfx c es
       @ assigned_aliases pfx (c + length (filter (\<lambda>e. expr_alias e = []) es)) fs"
  by (induction es arbitrary: c) simp_all

lemma stage1_pivots_eq:
  "\<exists>ps' c' node'. stage1_pivots ps (c, node) = (ps', c', node')
     \<and> map entries ps' = map entries ps
     \<and> map (\<lambda>pivot. length (pivot_expressions pivot)) ps'
         = map (\<lambda>pivot. length (pivot_expressions pivot)) ps
     \<and> concat (map pivot_expressions ps')
         = map ColumnRef
             (assigned_aliases ''__internal_pivot_ref'' c (concat (map pivot_expressions ps)))"
proof (induction ps arbitrary: c node)
  case Nil
  then show ?case by simp
next
  case (Cons p ps)
  from stage1_pivot_expressions_eq [of "pivot_expressions p" c node] obtain node1 where
    first: "stage1_pivot_expressions (pivot_expressions p) (c, node) =
      (map ColumnRef (assigned_aliases ''__internal_pivot_ref'' c (pivot_expressions p)),
       c + length (filter (\<lambda>e. expr_alias e = []) (pivot_expressions p)), node1)" by blast
  from Cons.IH [of "c + length (filter (\<lambda>e. expr_alias e = []) (pivot_expressions p))" node1]
  obtain ps' c' node' where
    rest: "stage1_pivots ps
        (c + length (filter (\<lambda>e. expr_alias e = []) (pivot_expressions p)), node1)
       = (ps', c', node')"
      "map entries ps' = map entries ps"
      "map (\<lambda>pivot. length (pivot_expressions pivot)) ps'
         = map (\<lambda>pivot. length (pivot_expressions pivot)) ps"
      "concat (map pivot_expressions ps')
         = map ColumnRef (assigned_aliases ''__internal_pivot_ref''
             (c + length (filter (\<lambda>e. expr_alias e = []) (pivot_expressions p)))
             (concat (map pivot_expressions ps)))"
    by blast
  show ?case
    using first rest by (simp add: assigned_aliases_append)
qed

lemma stage1_aggregates_eq:
  "\<exists>node'. stage1_aggregates aggs (c, bs, node) =
     (c + length aggs,
      bs\<lparr>aggregate_names := aggregate_names bs @ map expr_alias aggs,
         internal_aggregate_names :=
           internal_aggregate_names bs
             @ counter_names ''__internal_pivot_aggregate'' c (length aggs)\<rparr>,
      node')"
proof (induction aggs arbitrary: c bs node)
  case Nil
  then show ?case by simp
next
  case (Cons a aggs)
  from Cons.IH [of "Suc c"
      "bs\<lparr>aggregate_names := aggregate_names bs @ [expr_alias a],
         internal_aggregate_names := internal_aggregate_names bs
           @ [''__internal_pivot_aggregate'' @ to_string (Suc c)]\<rparr>"
      "push_select (set_alias (''__internal_pivot_aggregate'' @ to_string (Suc c)) a) node"]
  show ?case by (auto simp: Let_def counter_names_Suc)
qed

lemma counter_names_add:
  "counter_names pfx c (m + n) = counter_names pfx c m @ counter_names pfx (c + m) n"
proof -
  have "[Suc c ..< Suc c + (m + n)] = [Suc c ..< Suc c + m] @ [Suc (c + m) ..< Suc (c + m) + n]"
    using upt_add_eq_append [of "Suc c" "Suc c + m" n] by (simp add: ac_simps)
  then show ?thesis by (simp add: counter_names_def)
qed

lemma counter_names_from_0:
  "map (\<lambda>i. pfx @ to_string (i + 1)) [0 ..< n] = counter_names pfx 0 n"
proof -
  have "[Suc 0 ..< Suc n] = map Suc [0 ..< n]" by (simp add: map_Suc_upt)
  then show ?thesis by (simp add: counter_names_def comp_def)
qed

lemma PivotStageOne_summary:
  assumes "PivotStageOne ext bs ref cols h = Inr (node1, bs1, ref1)"
  shows "\<exists>sl. (if groups ref = [] then set sl \<subseteq> set cols else sl = map ColumnRef (groups ref))
     \<and> bs1 = stage1_state ext bs sl (aggregates ref)
     \<and> map entries (pivots ref1) = map entries (pivots ref)
     \<and> map (\<lambda>pivot. length (pivot_expressions pivot)) (pivots ref1)
         = map (\<lambda>pivot. length (pivot_expressions pivot)) (pivots ref)
     \<and> concat (map pivot_expressions (pivots ref1))
         = map ColumnRef (assigned_aliases ''__internal_pivot_ref'' 0
             (concat (map pivot_expressions (pivots ref))))"
proof -
  define node0 where "node0 = set_from_table (source ref) empty_SelectNode"
  have sl0: "select_list node0 = []" by (simp add: node0_def empty_SelectNode_def)
  have "\<exists>nodeg.
      (if groups ref = [] then for_each (stage1_implicit_group h) cols node0
           else Inr (fold stage1_explicit_group (groups ref) node0)) = Inr nodeg
      \<and> (case stage1_group_aliases ext (select_list nodeg) (0, bs) of
           (sl, group_count, bind_state) \<Rightarrow>
             (case stage1_pivots (pivots ref) (0, set_select_list sl nodeg) of
                (new_pivots, pivot_count, subquery_stage1) \<Rightarrow>
                  (case stage1_aggregates (aggregates ref) (0, bind_state, subquery_stage1) of
                     (aggregate_count, bind_state, subquery_stage1) \<Rightarrow>
                       Inr (subquery_stage1, bind_state,
                            ref\<lparr>source := None, pivots := new_pivots\<rparr>))))
         = (Inr (node1, bs1, ref1) :: error + SelectNode \<times> PivotBindState \<times> PivotRef)"
  proof (cases "groups ref = []")
    case True
    with assms show ?thesis
      by (auto simp: PivotStageOne_def Let_def node0_def split: sum.splits)
  next
    case False
    with assms show ?thesis
      by (auto simp: PivotStageOne_def Let_def node0_def split: sum.splits)
  qed
  then obtain nodeg where
      g: "(if groups ref = [] then for_each (stage1_implicit_group h) cols node0
           else Inr (fold stage1_explicit_group (groups ref) node0)) = Inr nodeg"
      and rest: "(case stage1_group_aliases ext (select_list nodeg) (0, bs) of
           (sl, group_count, bind_state) \<Rightarrow>
             (case stage1_pivots (pivots ref) (0, set_select_list sl nodeg) of
                (new_pivots, pivot_count, subquery_stage1) \<Rightarrow>
                  (case stage1_aggregates (aggregates ref) (0, bind_state, subquery_stage1) of
                     (aggregate_count, bind_state, subquery_stage1) \<Rightarrow>
                       Inr (subquery_stage1, bind_state,
                            ref\<lparr>source := None, pivots := new_pivots\<rparr>))))
         = (Inr (node1, bs1, ref1) :: error + SelectNode \<times> PivotBindState \<times> PivotRef)"
    by blast
  define sl where "sl = select_list nodeg"
  have groups: "if groups ref = [] then set sl \<subseteq> set cols else sl = map ColumnRef (groups ref)"
  proof (cases "groups ref = []")
    case True
    with g stage1_implicit_groups [of h cols node0 nodeg] show ?thesis
      by (auto simp: sl_def sl0)
  next
    case False
    with g show ?thesis by (auto simp: sl_def sl0 stage1_explicit_groups)
  qed
  from stage1_group_aliases_eq [of ext sl 0 bs] obtain sl' where
    a: "stage1_group_aliases ext sl (0, bs) =
      (sl', 0 + length (filter (\<lambda>e. expr_alias e = []) sl),
       bs\<lparr>group_names := group_names bs @ map (GetName ext) sl,
          internal_group_names :=
            internal_group_names bs @ assigned_aliases ''__internal_pivot_group'' 0 sl\<rparr>)"
    by blast
  from stage1_pivots_eq [of "pivots ref" 0 "set_select_list sl' nodeg"]
  obtain ps' c' node' where
    p: "stage1_pivots (pivots ref) (0, set_select_list sl' nodeg) = (ps', c', node')"
      "map entries ps' = map entries (pivots ref)"
      "map (\<lambda>pivot. length (pivot_expressions pivot)) ps'
         = map (\<lambda>pivot. length (pivot_expressions pivot)) (pivots ref)"
      "concat (map pivot_expressions ps')
         = map ColumnRef (assigned_aliases ''__internal_pivot_ref'' 0
             (concat (map pivot_expressions (pivots ref))))"
    by blast
  from stage1_aggregates_eq [of "aggregates ref" 0
      "bs\<lparr>group_names := group_names bs @ map (GetName ext) sl,
          internal_group_names :=
            internal_group_names bs @ assigned_aliases ''__internal_pivot_group'' 0 sl\<rparr>" node']
  obtain node'' where
    ag: "stage1_aggregates (aggregates ref) (0,
        bs\<lparr>group_names := group_names bs @ map (GetName ext) sl,
          internal_group_names :=
            internal_group_names bs @ assigned_aliases ''__internal_pivot_group'' 0 sl\<rparr>, node')
      = (0 + length (aggregates ref),
         stage1_state ext bs sl (aggregates ref), node'')"
    by (auto simp: stage1_state_def)
  from rest have "bs1 = stage1_state ext bs sl (aggregates ref)"
      and "ref1 = ref\<lparr>source := None, pivots := ps'\<rparr>"
    unfolding sl_def [symmetric] a prod.case p(1) ag by simp_all
  with groups p show ?thesis by (intro exI [of _ sl]) simp
qed

lemma stage2_pivot_expressions_eq:
  "\<exists>node'. stage2_pivot_expressions es (c, bs, node) =
     (c + length es,
      bs\<lparr>internal_pivot_names :=
           internal_pivot_names bs @ counter_names ''__internal_pivot_name'' c (length es)\<rparr>,
      node')"
proof (induction es arbitrary: c bs node)
  case Nil
  then show ?case by simp
next
  case (Cons e es)
  from Cons.IH [of "Suc c"
      "bs\<lparr>internal_pivot_names := internal_pivot_names bs
           @ [''__internal_pivot_name'' @ to_string (Suc c)]\<rparr>"
      "push_select (FunctionExpression (''__internal_pivot_name'' @ to_string (Suc c)) ''list'' [e])
         node"]
  show ?case by (auto simp: Let_def counter_names_Suc)
qed

lemma stage2_pivots_eq:
  "\<exists>node'. stage2_pivots ps (c, bs, node) =
     (c + pivot_expression_count ps,
      bs\<lparr>internal_pivot_names :=
           internal_pivot_names bs
             @ counter_names ''__internal_pivot_name'' c (pivot_expression_count ps)\<rparr>,
      node')"
proof (induction ps arbitrary: c bs node)
  case Nil
  then show ?case by (simp add: pivot_expression_count_def)
next
  case (Cons p ps)
  from stage2_pivot_expressions_eq [of "pivot_expressions p" c bs node] obtain node1 where
    first: "stage2_pivot_expressions (pivot_expressions p) (c, bs, node) =
      (c + length (pivot_expressions p),
       bs\<lparr>internal_pivot_names := internal_pivot_names bs
            @ counter_names ''__internal_pivot_name'' c (length (pivot_expressions p))\<rparr>,
       node1)"
    by blast
  from Cons.IH [of "c + length (pivot_expressions p)"
      "bs\<lparr>internal_pivot_names := internal_pivot_names bs
            @ counter_names ''__internal_pivot_name'' c (length (pivot_expressions p))\<rparr>" node1]
  show ?case
    using first
    by (auto simp: pivot_expression_count_def counter_names_add add.assoc)
qed

lemma PivotStageTwo_summary:
  "\<exists>node2. PivotStageTwo bs ref node1 =
     (node2,
      bs\<lparr>internal_pivot_names :=
           internal_pivot_names bs
             @ counter_names ''__internal_pivot_name'' 0 (pivot_expression_count (pivots ref))\<rparr>)"
proof -
  define node where "node = fold stage2_aggregate (internal_aggregate_names bs)
    (fold stage2_group (internal_group_names bs) empty_SelectNode)"
  from stage2_pivots_eq [of "pivots ref" 0 bs node] obtain node' where
    "stage2_pivots (pivots ref) (0, bs, node) =
      (0 + pivot_expression_count (pivots ref),
       bs\<lparr>internal_pivot_names := internal_pivot_names bs
            @ counter_names ''__internal_pivot_name'' 0 (pivot_expression_count (pivots ref))\<rparr>,
       node')"
    by blast
  then show ?thesis
    by (simp add: PivotStageTwo_def Let_def node_def)
qed

lemma stage3_maps_eq:
  "for_each stage3_map is (bs, node) = Inr (bs', node') \<Longrightarrow>
     bs' = bs\<lparr>internal_map_names :=
               internal_map_names bs
                 @ map (\<lambda>i. ''__internal_pivot_map'' @ to_string (i + 1)) is\<rparr>"
proof (induction "is" arbitrary: bs node)
  case Nil
  then show ?case by simp
next
  case (Cons i "is")
  from Cons.prems obtain bs1 node1 where
      step: "stage3_map i (bs, node) = Inr (bs1, node1)"
      and rest: "for_each stage3_map is (bs1, node1) = Inr (bs', node')"
    by (auto split: sum.splits)
  from step have "bs1 = bs\<lparr>internal_map_names :=
      internal_map_names bs @ [''__internal_pivot_map'' @ to_string (i + 1)]\<rparr>"
    by (auto simp: stage3_map_def Let_def split: if_splits)
  with Cons.IH [OF rest] show ?case by simp
qed

lemma PivotStageThree_summary:
  assumes "PivotStageThree ext bs ref node2 = Inr (node3, bs3)"
  shows "bs3 = bs\<lparr>internal_map_names :=
      internal_map_names bs
        @ counter_names ''__internal_pivot_map'' 0 (length (internal_pivot_names bs))\<rparr>"
proof -
  from assms obtain node where
    "for_each stage3_map [0 ..< length (internal_pivot_names bs)]
       (bs, fold stage3_group (internal_group_names bs) empty_SelectNode) = Inr (bs3, node)"
    by (auto simp: PivotStageThree_def Let_def split: sum.splits)
  from stage3_maps_eq [OF this] show ?thesis
    by (simp only: counter_names_from_0)
qed

lemma PivotStagesOneToThree_summary:
  assumes "PivotStagesOneToThree ext ref cols h = Inr (node3, bs3, ref1)"
  shows "\<exists>sl. (if groups ref = [] then set sl \<subseteq> set cols else sl = map ColumnRef (groups ref))
     \<and> bs3 = stages_state ext sl ref
     \<and> map entries (pivots ref1) = map entries (pivots ref)
     \<and> concat (map pivot_expressions (pivots ref1))
         = map ColumnRef (assigned_aliases ''__internal_pivot_ref'' 0
             (concat (map pivot_expressions (pivots ref))))"
proof -
  from assms obtain node1 bs1 node2 bs2 where
      one: "PivotStageOne ext empty_PivotBindState ref cols h = Inr (node1, bs1, ref1)"
      and two: "PivotStageTwo bs1 ref1 node1 = (node2, bs2)"
      and three: "PivotStageThree ext bs2 ref1 node2 = Inr (node3, bs3)"
    by (auto simp: PivotStagesOneToThree_def split: sum.splits prod.splits)
  from PivotStageOne_summary [OF one] obtain sl where
      sl: "if groups ref = [] then set sl \<subseteq> set cols else sl = map ColumnRef (groups ref)"
      and bs1: "bs1 = stage1_state ext empty_PivotBindState sl (aggregates ref)"
      and ents: "map entries (pivots ref1) = map entries (pivots ref)"
      and lens: "map (\<lambda>pivot. length (pivot_expressions pivot)) (pivots ref1)
         = map (\<lambda>pivot. length (pivot_expressions pivot)) (pivots ref)"
      and refs: "concat (map pivot_expressions (pivots ref1))
         = map ColumnRef (assigned_aliases ''__internal_pivot_ref'' 0
             (concat (map pivot_expressions (pivots ref))))"
    by blast
  have count: "pivot_expression_count (pivots ref1) = pivot_expression_count (pivots ref)"
    using lens by (simp add: pivot_expression_count_def)
  from PivotStageTwo_summary [of bs1 ref1 node1] two have bs2:
    "bs2 = bs1\<lparr>internal_pivot_names := internal_pivot_names bs1
        @ counter_names ''__internal_pivot_name'' 0 (pivot_expression_count (pivots ref))\<rparr>"
    by (auto simp: count)
  from PivotStageThree_summary [OF three] have
    "bs3 = stages_state ext sl ref"
    by (simp add: bs2 bs1 stage1_state_def stages_state_def empty_PivotBindState_def)
  with sl ents refs show ?thesis by (intro exI [of _ sl]) simp
qed

section \<open>C1: the enumerator yields the product of the entries, in declaration order\<close>

lemma append_entry_values_eq:
  "append_entry_values ext entry vs (nv, name) =
     (nv\<lparr>pv_values := pv_values nv @ vs\<rparr>,
      if entry_alias entry = [] then foldl join_step name (map (ToString ext) vs) else name)"
  by (induction vs arbitrary: nv name) (auto simp: join_step_def)

lemma foldl_join_step_nonempty:
  "acc \<noteq> [] \<Longrightarrow> foldl join_step acc ss = acc @ concat (map (\<lambda>s. ''_'' @ s) ss)"
  by (induction ss arbitrary: acc) (auto simp: join_step_def)

lemma underscore_join_Cons:
  "underscore_join (s # ss) = s @ concat (map (\<lambda>s. ''_'' @ s) ss)"
  by (induction ss arbitrary: s) auto

lemma extend_value_eq:
  "extend_value ext cur entry =
     \<lparr>pv_values = pv_values cur @ entry_values entry,
      pv_name = join_step (pv_name cur) (level_name ext entry)\<rparr>"
  by (simp add: extend_value_def append_entry_values_eq level_name_def join_step_def)

lemma for_each_append:
  "(\<And>x acc. x \<in> set xs \<Longrightarrow> body x acc = Inr (acc @ g x))
    \<Longrightarrow> for_each body xs acc = Inr (acc @ concat (map g xs))"
  by (induction xs arbitrary: acc) auto

lemma ConstructPivots_product:
  assumes "debug ext \<longrightarrow> arities_match ref"
    and "pivot_idx < length (pivots ref)"
  shows "ConstructPivots ext ref acc pivot_idx cur =
     Inr (acc @ map (foldl (extend_value ext) cur)
                  (product_lists (map entries (drop pivot_idx (pivots ref)))))"
  using assms(2)
proof (induction "length (pivots ref) - pivot_idx" arbitrary: pivot_idx acc cur)
  case 0
  then show ?case by simp
next
  case (Suc n)
  let ?pivot = "pivots ref ! pivot_idx"
  have drop_eq: "drop pivot_idx (pivots ref) = ?pivot # drop (Suc pivot_idx) (pivots ref)"
    using Suc.prems by (simp add: Cons_nth_drop_Suc)
  have assert_ok:
    "D_ASSERT ext (length (entry_values entry) = length (pivot_expressions ?pivot)) msg = Inr ()"
    if "entry \<in> set (entries ?pivot)" for entry msg
    using assms(1) that Suc.prems
    by (auto simp: D_ASSERT_def arities_match_def list_all_iff)
  show ?case
  proof (cases "pivot_idx + 1 = length (pivots ref)")
    case True
    then have rest: "drop (Suc pivot_idx) (pivots ref) = []" by simp
    have "ConstructPivots ext ref acc pivot_idx cur =
        Inr (acc @ concat (map (\<lambda>entry. [extend_value ext cur entry]) (entries ?pivot)))"
      using Suc.prems True
      by (subst ConstructPivots.simps) (simp add: Let_def assert_ok for_each_append)
    then show ?thesis
      by (simp add: drop_eq rest concat_map_singleton comp_def)
  next
    case False
    then have lt: "Suc pivot_idx < length (pivots ref)" using Suc.prems by simp
    have n: "n = length (pivots ref) - Suc pivot_idx" using Suc.hyps(2) by simp
    have "ConstructPivots ext ref acc pivot_idx cur =
        Inr (acc @ concat (map (\<lambda>entry.
                 map (foldl (extend_value ext) (extend_value ext cur entry))
                   (product_lists (map entries (drop (Suc pivot_idx) (pivots ref)))))
               (entries ?pivot)))"
      using Suc.prems False
      by (subst ConstructPivots.simps)
         (simp add: Let_def assert_ok for_each_append Suc.hyps(1) [OF n lt])
    then show ?thesis
      by (simp add: drop_eq map_concat comp_def)
  qed
qed


lemma foldl_extend_value:
  "foldl (extend_value ext) cur combo =
     \<lparr>pv_values = pv_values cur @ concat (map entry_values combo),
      pv_name = foldl join_step (pv_name cur) (map (level_name ext) combo)\<rparr>"
  by (induction combo arbitrary: cur) (auto simp: extend_value_eq)

lemma foldl_join_step_join_from_nonempty:
  "foldl join_step [] ss = join_from_nonempty ss"
proof (induction ss)
  case Nil
  then show ?case by (simp add: join_from_nonempty_def)
next
  case (Cons s ss)
  show ?case
  proof (cases "s = []")
    case True
    then have "join_step [] s = []" by (simp add: join_step_def)
    with True Cons show ?thesis by (simp add: join_from_nonempty_def)
  next
    case False
    then have "join_step [] s = s" by (simp add: join_step_def)
    with False show ?thesis
      by (simp add: join_from_nonempty_def foldl_join_step_nonempty underscore_join_Cons)
  qed
qed

lemma level_name_enumerated: "level_name ext entry = enumerated_level_name ext entry"
  by (simp add: level_name_def enumerated_level_name_def foldl_join_step_join_from_nonempty)

lemma length_underscore_join:
  "length (underscore_join ss) = sum_list (map length ss) + (length ss - 1)"
  by (induction ss rule: underscore_join.induct) auto

lemma length_join_from_nonempty:
  "length (join_from_nonempty ss) \<le> length (underscore_join ss)"
proof (induction ss)
  case Nil
  then show ?case by (simp add: join_from_nonempty_def)
next
  case (Cons s ss)
  then show ?case
    by (cases "s = []") (auto simp: join_from_nonempty_def length_underscore_join)
qed

lemma join_from_nonempty_exact:
  "length (join_from_nonempty ss) = length (underscore_join ss) \<longleftrightarrow> starts_nonempty ss"
proof (cases ss rule: starts_nonempty.cases)
  case 1
  then show ?thesis by (simp add: join_from_nonempty_def)
next
  case (2 s)
  then show ?thesis by (simp add: join_from_nonempty_def)
next
  case (3 s t ts)
  show ?thesis
  proof (cases "s = []")
    case True
    have "length (join_from_nonempty (t # ts)) \<le> length (underscore_join (t # ts))"
      by (rule length_join_from_nonempty)
    moreover have "join_from_nonempty ss = join_from_nonempty (t # ts)"
      using 3 True by (simp add: join_from_nonempty_def)
    moreover have "length (underscore_join ss) = Suc (length (underscore_join (t # ts)))"
      using 3 True by simp
    ultimately show ?thesis using 3 True by simp
  next
    case False
    then show ?thesis using 3 by (simp add: join_from_nonempty_def)
  qed
qed

lemma join_from_nonempty_eq:
  "starts_nonempty ss \<Longrightarrow> join_from_nonempty ss = underscore_join ss"
  by (cases ss rule: starts_nonempty.cases) (auto simp: join_from_nonempty_def)

lemma enumerated_level_length:
  "length (enumerated_level_name ext entry) \<le> length (entry_display_name ext entry)"
  by (simp add: enumerated_level_name_def entry_display_name_def length_join_from_nonempty)

lemma enumerated_level_exact:
  "length (enumerated_level_name ext entry) = length (entry_display_name ext entry)
     \<longleftrightarrow> (entry_alias entry = [] \<longrightarrow> starts_nonempty (map (ToString ext) (entry_values entry)))"
  by (simp add: enumerated_level_name_def entry_display_name_def join_from_nonempty_exact)

lemma enumerated_level_eq:
  "entry_alias entry = [] \<longrightarrow> starts_nonempty (map (ToString ext) (entry_values entry))
    \<Longrightarrow> enumerated_level_name ext entry = entry_display_name ext entry"
  by (auto simp: enumerated_level_name_def entry_display_name_def join_from_nonempty_eq)

lemma sum_list_pointwise:
  "(\<And>x. x \<in> set xs \<Longrightarrow> f x \<le> (g x :: nat)) \<Longrightarrow>
     sum_list (map f xs) \<le> sum_list (map g xs)
     \<and> (sum_list (map f xs) = sum_list (map g xs) \<longleftrightarrow> (\<forall>x \<in> set xs. f x = g x))"
proof (induction xs)
  case Nil
  then show ?case by simp
next
  case (Cons x xs)
  have "f x \<le> g x" using Cons.prems by simp
  moreover have "sum_list (map f xs) \<le> sum_list (map g xs)
     \<and> (sum_list (map f xs) = sum_list (map g xs) \<longleftrightarrow> (\<forall>x \<in> set xs. f x = g x))"
    using Cons.prems by (intro Cons.IH) simp
  ultimately show ?case by auto
qed

lemma enumerated_element_exact:
  "enumerated_element ext combo = combination_element ext combo \<longleftrightarrow> joins_exactly ext combo"
proof
  assume exact: "joins_exactly ext combo"
  then have levels: "map (enumerated_level_name ext) combo = map (entry_display_name ext) combo"
    by (intro map_cong refl enumerated_level_eq) (auto simp: joins_exactly_def list_all_iff)
  from exact have "join_from_nonempty (map (entry_display_name ext) combo)
      = underscore_join (map (entry_display_name ext) combo)"
    by (intro join_from_nonempty_eq) (simp add: joins_exactly_def)
  then show "enumerated_element ext combo = combination_element ext combo"
    by (simp only: enumerated_element_def combination_element_def levels)
next
  assume "enumerated_element ext combo = combination_element ext combo"
  then have eq: "join_from_nonempty (map (enumerated_level_name ext) combo)
      = underscore_join (map (entry_display_name ext) combo)"
    by (simp add: enumerated_element_def combination_element_def)
  let ?e = "map (enumerated_level_name ext) combo"
  let ?d = "map (entry_display_name ext) combo"
  note pw = sum_list_pointwise [of combo "\<lambda>entry. length (enumerated_level_name ext entry)"
      "\<lambda>entry. length (entry_display_name ext entry)", OF enumerated_level_length]
  have le1: "length (join_from_nonempty ?e) \<le> length (underscore_join ?e)"
    by (rule length_join_from_nonempty)
  have le2: "length (underscore_join ?e) \<le> length (underscore_join ?d)"
    using pw by (simp add: length_underscore_join comp_def)
  from eq have "length (join_from_nonempty ?e) = length (underscore_join ?d)" by simp
  with le1 le2 have eq1: "length (join_from_nonempty ?e) = length (underscore_join ?e)"
    and eq2: "length (underscore_join ?e) = length (underscore_join ?d)"
    by simp_all
  from eq2 pw have "\<forall>entry \<in> set combo.
      length (enumerated_level_name ext entry) = length (entry_display_name ext entry)"
    by (simp add: length_underscore_join comp_def)
  then have levels: "\<forall>entry \<in> set combo.
      entry_alias entry = [] \<longrightarrow> starts_nonempty (map (ToString ext) (entry_values entry))"
    by (simp add: enumerated_level_exact)
  then have "?e = ?d"
    by (intro map_cong refl enumerated_level_eq) auto
  with eq1 have "starts_nonempty ?d" by (simp add: join_from_nonempty_exact)
  with levels show "joins_exactly ext combo"
    by (simp add: joins_exactly_def list_all_iff)
qed

lemma length_product_lists_prod:
  "length (product_lists xss) = prod_list (map length xss)"
  by (induction xss) (auto simp: length_concat comp_def sum_list_triv)

text \<open>
  C1 (amended). For a declaration with at least one pivot column whose entries each hold
  one value per pivot expression of their column (line 32 asserts it), the enumerator
  returns one element per combination of entries, one entry per pivot column: their number
  is the product of the entry counts, their order is depth-first (the first pivot column
  varies slowest, the entries of each column in declared order), and the values of an
  element are the values of its entries in order. The name of an element is the join,
  across the levels in order, of the level names, and the name of a level is the alias of
  the entry when it has one, else the join of its stringified values; each of these joins
  starts at its first non-empty part and is the underscore-join from there on. So the name
  of an element is the underscore-join of the level names of the specification exactly when
  every join of two or more parts starts with a non-empty part.
\<close>

theorem ConstructPivots_enumerates:
  assumes "pivots ref \<noteq> []"
    and "debug ext \<longrightarrow> arities_match ref"
  shows "ConstructPivots ext ref [] 0 empty_PivotValueElement =
           Inr (map (enumerated_element ext) (product_lists (map entries (pivots ref))))
         \<and> length (product_lists (map entries (pivots ref)))
             = prod_list (map (\<lambda>pivot. length (entries pivot)) (pivots ref))
         \<and> (\<forall>combo \<in> set (product_lists (map entries (pivots ref))).
              enumerated_element ext combo = combination_element ext combo
                \<longleftrightarrow> joins_exactly ext combo)"
proof -
  have run: "ConstructPivots ext ref [] 0 empty_PivotValueElement =
      Inr (map (foldl (extend_value ext) empty_PivotValueElement)
             (product_lists (map entries (pivots ref))))"
    using ConstructPivots_product [OF assms(2), of 0 "[]" empty_PivotValueElement] assms(1)
    by simp
  have elem:
    "foldl (extend_value ext) empty_PivotValueElement combo = enumerated_element ext combo"
    for combo
    by (simp add: foldl_extend_value enumerated_element_def empty_PivotValueElement_def
        foldl_join_step_join_from_nonempty level_name_enumerated [abs_def])
  show ?thesis
    using run length_product_lists_prod [of "map entries (pivots ref)"]
    by (simp add: elem [abs_def] comp_def enumerated_element_exact)
qed

text \<open>The theorem at two pivot columns of two entries each: four elements, in order.\<close>

theorem ConstructPivots_enumerates_witness:
  "ConstructPivots example_ext quarter_region_ref [] 0 empty_PivotValueElement =
     Inr [\<lparr>pv_values = [VARCHAR ''Q1'', VARCHAR ''A''], pv_name = ''Q1_A''\<rparr>,
          \<lparr>pv_values = [VARCHAR ''Q1'', VARCHAR ''B''], pv_name = ''Q1_B''\<rparr>,
          \<lparr>pv_values = [VARCHAR ''Q2'', VARCHAR ''A''], pv_name = ''Q2_A''\<rparr>,
          \<lparr>pv_values = [VARCHAR ''Q2'', VARCHAR ''B''], pv_name = ''Q2_B''\<rparr>]"
proof -
  have h1: "pivots quarter_region_ref \<noteq> []"
    by (simp add: quarter_region_ref_def pivot_ref_def)
  have h2: "debug example_ext \<longrightarrow> arities_match quarter_region_ref"
    by (simp add: quarter_region_ref_def pivot_ref_def pivot_on_def in_entry_def arities_match_def)
  from ConstructPivots_enumerates [OF h1 h2, THEN conjunct1] show ?thesis
    by (simp add: quarter_region_ref_def pivot_ref_def pivot_on_def in_entry_def
        enumerated_element_def enumerated_level_name_def join_from_nonempty_def example_ext_def)
qed

text \<open>
  C1 as stated fails where a level has the empty name: for the entries \<^verbatim>\<open>('')\<close> and
  \<^verbatim>\<open>('x')\<close> of two pivot columns the enumerator names the element \<^verbatim>\<open>x\<close>, and the
  underscore-join of the level names is \<^verbatim>\<open>_x\<close>.
\<close>

theorem ConstructPivots_empty_name_counterexample:
  "ConstructPivots example_ext empty_name_ref [] 0 empty_PivotValueElement =
     Inr [\<lparr>pv_values = [VARCHAR [], VARCHAR ''x''], pv_name = ''x''\<rparr>]
   \<and> underscore_join (map (entry_display_name example_ext)
        [in_entry [VARCHAR []], in_entry [VARCHAR ''x'']]) = ''_x''"
  by (simp add: ConstructPivots.simps empty_name_ref_def pivot_ref_def pivot_on_def in_entry_def
      D_ASSERT_def extend_value_def entry_display_name_def example_ext_def
      empty_PivotValueElement_def ColumnRef_def)

section \<open>C2: the limit on the number of pivot values\<close>

lemma cis_insert_idem: "cis_insert c (cis_insert c h) = cis_insert c h"
  by (simp add: cis_insert_def)

lemma bind_two_entry_column:
  "bind_pivot_column ext two_entry_column (t, h, bound)
     = Inr (t * 2, cis_insert ''c'' h, bound @ [two_entry_column])"
  by (simp add: bind_pivot_column_def two_entry_column_def pivot_on_def in_entry_def
      expand_pivot_enum_def ExtractPivotExpressions_ColumnRef bind_pivot_entry_def D_ASSERT_def
      entry_key_def)

lemma bind_two_entry_columns:
  "for_each (bind_pivot_column ext) (replicate n two_entry_column) (t, cis_insert ''c'' h, bound)
     = Inr (t * 2 ^ n, cis_insert ''c'' h, bound @ replicate n two_entry_column)"
proof (induction n arbitrary: t bound)
  case 0
  then show ?case by simp
next
  case (Suc n)
  show ?case
    by (simp add: bind_two_entry_column cis_insert_idem Suc.IH replicate_app_Cons_same
        mult.assoc)
qed

text \<open>
  C2 fails on the code. \<^verbatim>\<open>total_pivots\<close> is an \<^verbatim>\<open>idx_t\<close>, so the product of the entry counts
  is computed modulo \<open>2 ^ 64\<close>. For 64 pivot columns of two entries each the count is
  \<open>2 ^ 64\<close>, \<^verbatim>\<open>total_pivots\<close> is 0, and the validation admits the declaration.
\<close>

theorem pivot_limit_wraps:
  "prod_list (map (\<lambda>pivot. length (entries pivot)) (pivots wide_ref)) = 2 ^ 64
   \<and> BindPivot_validate example_ext wide_ref
       = Inr (wide_ref, cis_insert ''c'' (cis_insert ''amount'' {}))"
proof -
  have count: "prod_list (map (\<lambda>pivot. length (entries pivot)) (replicate n two_entry_column))
      = 2 ^ n" for n
    by (induction n) (simp_all add: two_entry_column_def pivot_on_def)
  have loop: "for_each (bind_pivot_column example_ext) (replicate 64 two_entry_column)
       (1, cis_insert ''amount'' {}, [])
     = Inr (0, cis_insert ''c'' (cis_insert ''amount'' {}), replicate 64 two_entry_column)"
  proof -
    have "replicate 64 two_entry_column = two_entry_column # replicate 63 two_entry_column"
      by (simp add: replicate_Suc [symmetric] del: replicate_Suc)
    then show ?thesis
      using bind_two_entry_columns [of example_ext 63 2 "cis_insert ''amount'' {}"
          "[two_entry_column]"]
      by (simp add: bind_two_entry_column replicate_app_Cons_same)
  qed
  have nolimit: "\<not> PIVOT_EXPRESSION_LIMIT \<le> 0"
    by (simp add: PIVOT_EXPRESSION_LIMIT_def)
  have aggs: "for_each bind_pivot_aggregate (aggregates wide_ref) {}
      = Inr (cis_insert ''amount'' {})"
    by (simp only: wide_ref_def pivot_ref_sel bind_sum_amount)
  have piv: "pivots wide_ref = replicate 64 two_entry_column"
    by (simp only: wide_ref_def pivot_ref_sel)
  have upd: "wide_ref\<lparr>pivots := replicate 64 two_entry_column\<rparr> = wide_ref"
    by (simp add: wide_ref_def pivot_ref_def)
  have "BindPivot_validate example_ext wide_ref
      = Inr (wide_ref, cis_insert ''c'' (cis_insert ''amount'' {}))"
    by (simp only: BindPivot_validate_def aggs piv loop sum.case prod.case upd nolimit if_False)
  then show ?thesis
    using count [of 64] by (simp add: piv)
qed

text \<open>
  Where the number of combinations is below \<open>2 ^ 64\<close> the product does not wrap, and the
  limit is exact: once the loops of the validation have succeeded, a declaration is rejected
  with the limit error when it has 10000 combinations or more, and admitted otherwise.
\<close>

lemma bind_pivot_column_total:
  assumes "bind_pivot_column ext pivot (t, h, bound) = Inr (t', h', bound')"
  shows "\<exists>p. bound' = bound @ [p] \<and> t' = t * of_nat (length (entries p))"
  using assms
  by (auto simp: bind_pivot_column_def Let_def split: sum.splits)

lemma bind_pivot_columns_total:
  "for_each (bind_pivot_column ext) ps (t, h, bound) = Inr (t', h', bound') \<Longrightarrow>
     \<exists>new. bound' = bound @ new \<and> t' = t * of_nat (combination_count new)"
proof (induction ps arbitrary: t h bound)
  case Nil
  then show ?case by (simp add: combination_count_def)
next
  case (Cons p ps)
  from Cons.prems obtain t1 h1 bound1 where
      step: "bind_pivot_column ext p (t, h, bound) = Inr (t1, h1, bound1)"
      and rest: "for_each (bind_pivot_column ext) ps (t1, h1, bound1) = Inr (t', h', bound')"
    by (auto split: sum.splits)
  from bind_pivot_column_total [OF step] obtain p' where
    p': "bound1 = bound @ [p']" "t1 = t * of_nat (length (entries p'))" by blast
  from Cons.IH [OF rest] obtain new where
    new: "bound' = bound1 @ new" "t' = t1 * of_nat (combination_count new)" by blast
  show ?case
    using p' new
    by (intro exI [of _ "p' # new"]) (simp add: combination_count_def mult.assoc)
qed

lemma pivot_limit_exact:
  assumes "for_each bind_pivot_aggregate (aggregates ref) {} = Inr h"
    and "for_each (bind_pivot_column ext) (pivots ref) (1, h, []) = Inr (total_pivots, h', bound)"
    and "combination_count bound < 2 ^ 64"
  shows "BindPivot_validate ext ref =
     (if 10000 \<le> combination_count bound then
        Inl (BinderException ''Pivot column limit of %llu exceeded'')
      else Inr (ref\<lparr>pivots := bound\<rparr>, h'))"
proof -
  from bind_pivot_columns_total [OF assms(2)] have
    total: "total_pivots = of_nat (combination_count bound)" by simp
  have "PIVOT_EXPRESSION_LIMIT \<le> total_pivots \<longleftrightarrow> 10000 \<le> combination_count bound"
    using assms(3)
    by (simp add: total PIVOT_EXPRESSION_LIMIT_def word_le_nat_alt unat_of_nat
        take_bit_nat_eq_self)
  then show ?thesis
    using assms(1,2) by (simp add: BindPivot_validate_def)
qed

text \<open>The lemma at the pivot of \<^verbatim>\<open>sales\<close>, which has two combinations.\<close>

lemma sales_columns_bound:
  "for_each (bind_pivot_column example_ext) (pivots sales_ref) (1, {''amount''}, [])
     = Inr (2, sales_handled, pivots sales_ref)"
  by code_simp

lemma pivot_limit_exact_example:
  "BindPivot_validate example_ext sales_ref = Inr (sales_ref, sales_handled)"
proof -
  have h1: "for_each bind_pivot_aggregate (aggregates sales_ref) {} = Inr {''amount''}"
    by code_simp
  have h3: "combination_count (pivots sales_ref) < 2 ^ 64"
    by (simp add: combination_count_def sales_ref_def pivot_ref_def pivot_on_def)
  have "combination_count (pivots sales_ref) = 2"
    by (simp add: combination_count_def sales_ref_def pivot_ref_def pivot_on_def)
  with pivot_limit_exact [OF h1 sales_columns_bound h3] show ?thesis
    by (simp add: sales_ref_def pivot_ref_def)
qed

section \<open>C3: the select list of stage 4\<close>

lemma stage4_groups:
  "(\<And>gr. gr \<in> set grs \<Longrightarrow> gr < length (group_names bs)) \<Longrightarrow>
   for_each (stage4_group bs) grs (SelectNode sl ft wc ge)
     = Inr (SelectNode (sl @ map (group_column bs) grs) ft wc ge)"
proof (induction grs arbitrary: sl)
  case Nil
  then show ?case by simp
next
  case (Cons g grs)
  have "g < length (group_names bs)" using Cons.prems by simp
  moreover have "for_each (stage4_group bs) grs (SelectNode (sl @ [group_column bs g]) ft wc ge)
      = Inr (SelectNode ((sl @ [group_column bs g]) @ map (group_column bs) grs) ft wc ge)"
    using Cons.prems by (intro Cons.IH) simp
  moreover have "stage4_group bs g (SelectNode sl ft wc ge)
      = Inr (SelectNode (sl @ [group_column bs g]) ft wc ge)"
    using \<open>g < length (group_names bs)\<close> by (simp add: stage4_group_def group_column_def)
  ultimately show ?case
    by simp
qed



lemma stage4_pivot_values_multiple:
  "\<not> list_all (\<lambda>pv. length (pv_values pv) = 1) pvs \<Longrightarrow>
   for_each (stage4_pivot_value ext bs) pvs node
     = Inl (InternalException ''FIXME multiple pivots'')"
proof (induction pvs arbitrary: node)
  case Nil
  then show ?case by simp
next
  case (Cons pv pvs)
  then show ?case
    by (cases "length (pv_values pv) = 1") (simp_all add: stage4_pivot_value_def)
qed




subsection \<open>Stage 4 within \<^verbatim>\<open>BindPivot\<close>\<close>

lemma bind_pivot_entries_arity:
  "for_each (bind_pivot_entry ext pivot) es S = Inr S' \<Longrightarrow>
     list_all (\<lambda>entry. length (entry_values entry) = length (pivot_expressions pivot)) es"
proof (induction es arbitrary: S)
  case Nil
  then show ?case by simp
next
  case (Cons e es)
  from Cons.prems obtain S1 where
      step: "bind_pivot_entry ext pivot e S = Inr S1"
      and rest: "for_each (bind_pivot_entry ext pivot) es S1 = Inr S'"
    by (auto split: sum.splits)
  from step have "length (entry_values e) = length (pivot_expressions pivot)"
    by (auto simp: bind_pivot_entry_def Let_def split: sum.splits if_splits)
  with Cons.IH [OF rest] show ?case by simp
qed

lemma bind_pivot_column_arity:
  assumes "bind_pivot_column ext pivot (t, h, bound) = Inr (t', h', bound')"
  shows "\<exists>p. bound' = bound @ [p] \<and> arity_ok p"
proof -
  from assms obtain p S h1 where
      "expand_pivot_enum ext pivot = Inr p"
      and loop: "for_each (bind_pivot_entry ext p) (entries p) {} = Inr S"
      and "bound' = bound @ [p]"
    by (auto simp: bind_pivot_column_def Let_def split: sum.splits)
  with bind_pivot_entries_arity [OF loop] show ?thesis
    by (auto simp: arity_ok_def)
qed

lemma bind_pivot_columns_arity:
  "for_each (bind_pivot_column ext) ps (t, h, bound) = Inr (t', h', bound') \<Longrightarrow>
     list_all arity_ok bound \<Longrightarrow> list_all arity_ok bound'"
proof (induction ps arbitrary: t h bound)
  case Nil
  then show ?case by simp
next
  case (Cons p ps)
  from Cons.prems(1) obtain t1 h1 bound1 where
      step: "bind_pivot_column ext p (t, h, bound) = Inr (t1, h1, bound1)"
      and rest: "for_each (bind_pivot_column ext) ps (t1, h1, bound1) = Inr (t', h', bound')"
    by (auto split: sum.splits)
  from bind_pivot_column_arity [OF step] Cons.prems(2) have "list_all arity_ok bound1"
    by auto
  from Cons.IH [OF rest this] show ?case .
qed

lemma BindPivot_validate_arities:
  assumes "BindPivot_validate ext ref = Inr (ref1, h)"
  shows "arities_match ref1"
proof -
  from assms obtain h0 t bound where
      "for_each (bind_pivot_column ext) (pivots ref) (1, h0, []) = Inr (t, h, bound)"
      and "ref1 = ref\<lparr>pivots := bound\<rparr>"
    by (auto simp: BindPivot_validate_def split: sum.splits if_splits)
  with bind_pivot_columns_arity [of ext "pivots ref" 1 h0 "[]" t h bound] show ?thesis
    by (simp add: arities_match_def arity_ok_def list_all_iff)
qed

lemma combination_arity:
  assumes "list_all2 (\<lambda>entry pivot. entry \<in> set (entries pivot)) combo ps"
    and "list_all arity_ok ps"
  shows "length (concat (map entry_values combo)) = pivot_expression_count ps"
  using assms
proof (induction combo ps rule: list_all2_induct)
  case Nil
  then show ?case by (simp add: pivot_expression_count_def)
next
  case (Cons e combo p ps)
  then show ?case
    by (auto simp: pivot_expression_count_def arity_ok_def list_all_iff)
qed

lemma pivot_values_arity:
  assumes "arities_match ref"
    and "ConstructPivots ext ref [] 0 empty_PivotValueElement = Inr pivot_values"
    and "pv \<in> set pivot_values"
  shows "length (pv_values pv) = pivot_expression_count (pivots ref)"
proof -
  have ne: "0 < length (pivots ref)"
    using assms(2) ConstructPivots_no_pivots [of ref ext "[]" 0 empty_PivotValueElement]
    by (cases "pivots ref") auto
  from ConstructPivots_product [of ext ref 0 "[]" empty_PivotValueElement] assms(1) ne
  have "ConstructPivots ext ref [] 0 empty_PivotValueElement =
      Inr (map (foldl (extend_value ext) empty_PivotValueElement)
             (product_lists (map entries (pivots ref))))"
    by simp
  with assms(2,3) obtain combo where
      combo: "combo \<in> set (product_lists (map entries (pivots ref)))"
      and pv: "pv = foldl (extend_value ext) empty_PivotValueElement combo"
    by auto
  from combo have "list_all2 (\<lambda>entry es. entry \<in> set es) combo (map entries (pivots ref))"
    by (simp add: product_lists_set)
  then have "list_all2 (\<lambda>entry pivot. entry \<in> set (entries pivot)) combo (pivots ref)"
    by (simp add: list_all2_map2)
  moreover have "list_all arity_ok (pivots ref)"
    using assms(1) by (simp add: arities_match_def arity_ok_def list_all_iff)
  ultimately have "length (concat (map entry_values combo)) = pivot_expression_count (pivots ref)"
    by (rule combination_arity)
  then show ?thesis
    by (simp add: pv foldl_extend_value empty_PivotValueElement_def)
qed

lemma stage4_single_map:
  "\<exists>pv'. stage4_maps ext [m] (pv, SelectNode sl ft wc ge)
     = (pv', SelectNode (sl @ [map_extract_expr m (pv_values pv ! 0) (pv_name pv)]) ft wc ge)"
  by (simp add: Let_def map_extract_expr_def)

lemma stage4_pivot_values_single:
  "list_all (\<lambda>pv. length (pv_values pv) = 1) pvs \<Longrightarrow> internal_map_names bs = [m] \<Longrightarrow>
   for_each (stage4_pivot_value ext bs) pvs (SelectNode sl ft wc ge)
     = Inr (SelectNode
              (sl @ map (\<lambda>pv. map_extract_expr m (pv_values pv ! 0) (pv_name pv)) pvs)
              ft wc ge)"
proof (induction pvs arbitrary: sl)
  case Nil
  then show ?case by simp
next
  case (Cons pv pvs)
  from stage4_single_map [of ext m pv sl ft wc ge] obtain pv' where
    "stage4_maps ext [m] (pv, SelectNode sl ft wc ge)
       = (pv', SelectNode (sl @ [map_extract_expr m (pv_values pv ! 0) (pv_name pv)]) ft wc ge)"
    by blast
  with Cons show ?case
    by (simp add: stage4_pivot_value_def)
qed

text \<open>
  Within \<^verbatim>\<open>BindPivot\<close> an element that holds exactly one value reaches stage 4 only
  together with exactly one map column: validation gives every entry one value per pivot
  expression, and stage 3 builds one map per pivot expression. So when validation, the
  enumeration and the first three stages have succeeded, every expression that
  \<^verbatim>\<open>BindPivot\<close> returns holds the value and the display name of its element.
\<close>

lemma BindPivot_extracts:
  assumes "BindPivot_validate ext ref = Inr (ref1, handled_columns)"
    and "ConstructPivots ext ref1 [] 0 empty_PivotValueElement = Inr pivot_values"
    and "PivotStagesOneToThree ext ref1 all_columns handled_columns
           = Inr (subquery_stage3, bind_state, ref3)"
  shows "BindPivot ext ref all_columns =
     (if list_all (\<lambda>pv. length (pv_values pv) = 1) pivot_values then
        Inr (SelectNode
               (map (group_column bind_state) [0 ..< length (internal_group_names bind_state)]
                @ concat (map (\<lambda>pv. map (\<lambda>internal_map.
                                 map_extract_expr internal_map (pv_values pv ! 0) (pv_name pv))
                               (internal_map_names bind_state))
                     pivot_values))
               (Some (SubqueryRef subquery_stage3 [])) None [])
      else Inl (InternalException ''FIXME multiple pivots''))"
proof -
  from PivotStagesOneToThree_summary [OF assms(3)] obtain sl where
    bs: "bind_state = stages_state ext sl ref1" by blast
  have len: "length (group_names bind_state) = length (internal_group_names bind_state)"
    by (simp add: bs stages_state_def)
  have maps: "length (internal_map_names bind_state) = pivot_expression_count (pivots ref1)"
    by (simp add: bs stages_state_def)
  have groups: "for_each (stage4_group bind_state)
        [0 ..< length (internal_group_names bind_state)] empty_SelectNode
      = Inr (SelectNode (map (group_column bind_state)
                [0 ..< length (internal_group_names bind_state)]) None None [])"
    using stage4_groups [of "[0 ..< length (internal_group_names bind_state)]" bind_state "[]"
        None None "[]"] len
    by (simp add: empty_SelectNode_def)
  have run: "BindPivot ext ref all_columns
      = PivotStageFour ext bind_state ref3 subquery_stage3 pivot_values"
    using assms by (simp add: BindPivot_def BindPivot_stages_def)
  show ?thesis
  proof (cases "list_all (\<lambda>pv. length (pv_values pv) = 1) pivot_values")
    case False
    then show ?thesis
      by (simp add: run PivotStageFour_def groups stage4_pivot_values_multiple)
  next
    case True
    show ?thesis
    proof (cases "pivot_values = []")
      case True
      then show ?thesis
        by (simp add: run PivotStageFour_def groups)
    next
      case False
      then obtain pv where pv: "pv \<in> set pivot_values" by (cases pivot_values) auto
      with True have "length (pv_values pv) = 1" by (simp add: list_all_iff)
      with pivot_values_arity [OF BindPivot_validate_arities [OF assms(1)] assms(2) pv] maps
      have "length (internal_map_names bind_state) = 1" by simp
      then obtain m where m: "internal_map_names bind_state = [m]"
        by (cases "internal_map_names bind_state") auto
      from stage4_pivot_values_single [OF True m] show ?thesis
        using True by (simp add: run PivotStageFour_def groups m)
    qed
  qed
qed

lemma sales_validate: "BindPivot_validate example_ext sales_ref = Inr (sales_ref, sales_handled)"
  by code_simp

lemma sales_pivot_values:
  "ConstructPivots example_ext sales_ref [] 0 empty_PivotValueElement
     = Inr [\<lparr>pv_values = [VARCHAR ''Q1''], pv_name = ''Q1''\<rparr>,
            \<lparr>pv_values = [VARCHAR ''Q2''], pv_name = ''Q2''\<rparr>]"
  by code_simp

lemma sales_stages_state:
  "map_sum id (\<lambda>(node, bind_state, ref').
       (group_names bind_state, internal_group_names bind_state, internal_map_names bind_state))
     (PivotStagesOneToThree example_ext sales_ref sales_columns sales_handled)
   = Inr ([''region''], [''__internal_pivot_group1''], [''__internal_pivot_map1''])"
  by code_simp

text \<open>At the pivot of \<^verbatim>\<open>sales\<close>: the group \<^verbatim>\<open>region\<close> and one column per quarter.\<close>

lemma BindPivot_extracts_sales:
  "map_sum id select_list (BindPivot example_ext sales_ref sales_columns)
     = Inr [ColumnRefExpression ''region'' [] ''__internal_pivot_group1'',
            map_extract_expr ''__internal_pivot_map1'' (VARCHAR ''Q1'') ''Q1'',
            map_extract_expr ''__internal_pivot_map1'' (VARCHAR ''Q2'') ''Q2'']"
proof -
  from sales_stages_state obtain node bind_state ref' where
      run: "PivotStagesOneToThree example_ext sales_ref sales_columns sales_handled
        = Inr (node, bind_state, ref')"
      and names: "group_names bind_state = [''region'']"
        "internal_group_names bind_state = [''__internal_pivot_group1'']"
        "internal_map_names bind_state = [''__internal_pivot_map1'']"
    by (cases "PivotStagesOneToThree example_ext sales_ref sales_columns sales_handled") auto
  from BindPivot_extracts [OF sales_validate sales_pivot_values run] show ?thesis
    by (simp add: names group_column_def)
qed

section \<open>C4: the maps of stage 3\<close>

text \<open>
  C4 fails on the code. Stage 3 builds one map per pivot list, pairing the \<open>i\<close>-th pivot
  list with the \<open>i\<close>-th aggregate list, and asserts that there are as many pivot lists as
  aggregates; validation does not check that. With two aggregates over one pivot
  expression the assertion fails in a debug build, and a release build builds one map for
  the two aggregates; with one aggregate over two pivot expressions a release build reads
  past the end of the aggregate names.
\<close>

theorem maps_follow_pivot_lists:
  "BindPivot example_ext two_aggregates_ref sales_columns
     = Inl (AssertionFailure
         ''bind_state.internal_pivot_names.size() == bind_state.internal_aggregate_names.size()'')
   \<and> map_sum id (\<lambda>(node, bind_state, ref').
          (internal_aggregate_names bind_state, internal_map_names bind_state))
        (PivotStagesOneToThree release_ext two_aggregates_ref sales_columns sales_handled)
     = Inr ([''__internal_pivot_aggregate1'', ''__internal_pivot_aggregate2''],
            [''__internal_pivot_map1''])
   \<and> PivotStagesOneToThree release_ext two_pivots_ref sales_columns sales_handled
     = Inl OutOfBoundsAccess"
  by code_simp

section \<open>C5: duplicate entries of one pivot column\<close>





text \<open>
  The arity of an entry is a check of its own (lines 305-307), made when the entry is
  reached and before it is recorded: for \<^verbatim>\<open>x IN ((a, b), (a, b))\<close>, two values per entry
  against one pivot expression, the first entry ends the loop with the arity error.
\<close>

lemma entry_arity_error_example:
  "for_each (bind_pivot_entry example_ext repeated_pair_column)
     (entries repeated_pair_column) {}
   = Inl (ParserException ''PIVOT IN list - inconsistent amount of rows'')"
  by (simp add: repeated_pair_column_def pivot_on_def in_entry_def bind_pivot_entry_def
      D_ASSERT_def entry_key_def)

section \<open>C6: the internal names of one rewrite\<close>

lemma column_name_ColumnRef [simp]: "map (column_name \<circ> ColumnRef) xs = xs"
  by (induction xs) (simp_all add: ColumnRef_def)

lemma internal_names_disjoint:
  "set (counter_names ''__internal_pivot_group'' c n)
     \<inter> set (counter_names ''__internal_pivot_ref'' d m) = {}"
  "set (counter_names ''__internal_pivot_group'' c n)
     \<inter> set (counter_names ''__internal_pivot_aggregate'' d m) = {}"
  "set (counter_names ''__internal_pivot_group'' c n)
     \<inter> set (counter_names ''__internal_pivot_name'' d m) = {}"
  "set (counter_names ''__internal_pivot_group'' c n)
     \<inter> set (counter_names ''__internal_pivot_map'' d m) = {}"
  "set (counter_names ''__internal_pivot_ref'' c n)
     \<inter> set (counter_names ''__internal_pivot_aggregate'' d m) = {}"
  "set (counter_names ''__internal_pivot_ref'' c n)
     \<inter> set (counter_names ''__internal_pivot_name'' d m) = {}"
  "set (counter_names ''__internal_pivot_ref'' c n)
     \<inter> set (counter_names ''__internal_pivot_map'' d m) = {}"
  "set (counter_names ''__internal_pivot_aggregate'' c n)
     \<inter> set (counter_names ''__internal_pivot_name'' d m) = {}"
  "set (counter_names ''__internal_pivot_aggregate'' c n)
     \<inter> set (counter_names ''__internal_pivot_map'' d m) = {}"
  "set (counter_names ''__internal_pivot_name'' c n)
     \<inter> set (counter_names ''__internal_pivot_map'' d m) = {}"
  by (auto simp: counter_names_def)

text \<open>
  C6 (amended). When the group expressions and the pivot expressions carry no alias of
  the user (the source's columns and the declared rows carry none), so that every internal
  name of the rewrite comes from a counter, the internal group aliases, pivot-expression
  aliases, aggregate aliases, pivot-list names and map names of one rewrite are pairwise
  distinct, and each of them starts with \<^verbatim>\<open>__internal_pivot_\<close>: none equals an identifier that
  does not start so.
\<close>

theorem synthesized_names_distinct:
  assumes "PivotStagesOneToThree ext ref all_columns handled_columns
             = Inr (subquery_stage3, bind_state, ref')"
    and "groups ref = [] \<longrightarrow> list_all (\<lambda>e. expr_alias e = []) all_columns"
    and "list_all (\<lambda>pivot. list_all (\<lambda>e. expr_alias e = []) (pivot_expressions pivot))
           (pivots ref)"
  shows "distinct (internal_names bind_state ref')
    \<and> list_all (prefix ''__internal_pivot_'') (internal_names bind_state ref')"
proof -
  from PivotStagesOneToThree_summary [OF assms(1)] obtain sl where
      sl: "if groups ref = [] then set sl \<subseteq> set all_columns else sl = map ColumnRef (groups ref)"
      and bs: "bind_state = stages_state ext sl ref"
      and refs: "concat (map pivot_expressions (pivots ref'))
         = map ColumnRef (assigned_aliases ''__internal_pivot_ref'' 0
             (concat (map pivot_expressions (pivots ref))))"
    by blast
  have "list_all (\<lambda>e. expr_alias e = []) sl"
    using sl assms(2) by (auto simp: list_all_iff ColumnRef_def split: if_splits)
  then have g: "assigned_aliases ''__internal_pivot_group'' 0 sl
      = counter_names ''__internal_pivot_group'' 0 (length sl)"
    by (rule assigned_aliases_no_alias)
  have "list_all (\<lambda>e. expr_alias e = []) (concat (map pivot_expressions (pivots ref)))"
    using assms(3) by (auto simp: list_all_iff)
  then have r: "assigned_aliases ''__internal_pivot_ref'' 0
        (concat (map pivot_expressions (pivots ref)))
      = counter_names ''__internal_pivot_ref'' 0
          (length (concat (map pivot_expressions (pivots ref))))"
    by (rule assigned_aliases_no_alias)
  have names: "internal_names bind_state ref' =
      counter_names ''__internal_pivot_group'' 0 (length sl)
      @ counter_names ''__internal_pivot_ref'' 0
          (length (concat (map pivot_expressions (pivots ref))))
      @ counter_names ''__internal_pivot_aggregate'' 0 (length (aggregates ref))
      @ counter_names ''__internal_pivot_name'' 0 (pivot_expression_count (pivots ref))
      @ counter_names ''__internal_pivot_map'' 0 (pivot_expression_count (pivots ref))"
    by (simp add: internal_names_def bs stages_state_def refs g r)
  have "distinct (internal_names bind_state ref')"
    unfolding names
    by (simp add: distinct_counter_names internal_names_disjoint Int_Un_distrib)
  moreover have "list_all (prefix ''__internal_pivot_'') (internal_names bind_state ref')"
    unfolding names
    by (auto simp: list_all_iff counter_names_def)
  ultimately show ?thesis by simp
qed

lemma sales_stages_names:
  "map_sum id (\<lambda>(node, bind_state, ref'). internal_names bind_state ref')
     (PivotStagesOneToThree example_ext sales_ref sales_columns sales_handled)
   = Inr [''__internal_pivot_group1'', ''__internal_pivot_ref1'',
          ''__internal_pivot_aggregate1'', ''__internal_pivot_name1'',
          ''__internal_pivot_map1'']"
  by code_simp

text \<open>The theorem at the pivot of \<^verbatim>\<open>sales\<close>: five internal names.\<close>

theorem synthesized_names_distinct_witness:
  "case PivotStagesOneToThree example_ext sales_ref sales_columns sales_handled of
     Inl e \<Rightarrow> False
   | Inr (node, bind_state, ref') \<Rightarrow>
       internal_names bind_state ref'
         = [''__internal_pivot_group1'', ''__internal_pivot_ref1'',
            ''__internal_pivot_aggregate1'', ''__internal_pivot_name1'',
            ''__internal_pivot_map1'']
       \<and> distinct (internal_names bind_state ref')
       \<and> list_all (prefix ''__internal_pivot_'') (internal_names bind_state ref')"
proof -
  from sales_stages_names obtain node bind_state ref' where
      run: "PivotStagesOneToThree example_ext sales_ref sales_columns sales_handled
        = Inr (node, bind_state, ref')"
      and names: "internal_names bind_state ref'
         = [''__internal_pivot_group1'', ''__internal_pivot_ref1'',
            ''__internal_pivot_aggregate1'', ''__internal_pivot_name1'',
            ''__internal_pivot_map1'']"
    by (cases "PivotStagesOneToThree example_ext sales_ref sales_columns sales_handled") auto
  have h2: "groups sales_ref = [] \<longrightarrow> list_all (\<lambda>e. expr_alias e = []) sales_columns"
    by (simp add: sales_columns_def ColumnRef_def)
  have h3: "list_all (\<lambda>pivot. list_all (\<lambda>e. expr_alias e = []) (pivot_expressions pivot))
      (pivots sales_ref)"
    by (simp add: sales_ref_def pivot_ref_def pivot_on_def ColumnRef_def)
  from synthesized_names_distinct [OF run h2 h3] names run show ?thesis
    by simp
qed

text \<open>
  C6 as stated fails: nothing keeps a user from the reserved names. Over a table whose
  column is named \<^verbatim>\<open>__internal_pivot_group1\<close> the internal alias of that group column is the
  column's own name.
\<close>

theorem synthesized_name_equals_column_counterexample:
  "map_sum id (\<lambda>(node, bind_state, ref'). (group_names bind_state, internal_group_names bind_state))
     (PivotStagesOneToThree example_ext sales_ref reserved_columns sales_handled)
   = Inr ([''__internal_pivot_group1''], [''__internal_pivot_group1''])"
  by code_simp

section \<open>C7: the null-exclusion filter of UNPIVOT\<close>

lemma where_clause_push_select [simp]: "where_clause (push_select e node) = where_clause node"
  by (cases node) simp

lemma where_clause_set_from_table [simp]:
  "where_clause (set_from_table t node) = where_clause node"
  by (cases node) simp

lemma unpivot_source_columns_where:
  "for_each unpivot_source_column cols (node, m, h) = Inr (node', m', h')
    \<Longrightarrow> where_clause node' = where_clause node"
proof (induction cols arbitrary: node m h)
  case Nil
  then show ?case by simp
next
  case (Cons c cols)
  then show ?case
    by (auto simp: unpivot_source_column_def split: if_splits)
qed

lemma unpivot_value_column_step:
  "unpivot_value_column ref (i, e) (node, w) =
     (push_select (FunctionExpression (value_column_name ref i) ''unnest''
                     [FunctionExpression [] ''list_value'' e]) node,
      if include_nulls ref then w else conjoin w (is_not_null (value_column_name ref i)))"
  by (simp add: unpivot_value_column_def Let_def value_column_name_def is_not_null_def
      conjoin_def split: option.splits)

lemma unpivot_value_columns:
  "length is = length es \<Longrightarrow>
   fold (unpivot_value_column ref) (zip is es) (node, w) = (node', w')
    \<Longrightarrow> where_clause node' = where_clause node
      \<and> w' = (if include_nulls ref then w
              else foldl conjoin w (map (\<lambda>i. is_not_null (value_column_name ref i)) is))"
proof (induction "is" es arbitrary: node w rule: list_induct2)
  case Nil
  then show ?case by simp
next
  case (Cons i "is" e es)
  from Cons.prems Cons.IH show ?case
    by (simp add: unpivot_value_column_step split: if_splits)
qed

lemma BindUnpivot_where:
  assumes "BindUnpivot ext star_binder ref all_columns w = Inr (select_node, w')"
  shows "where_clause select_node = None \<and> w' = null_filter ref w"
  using assms unfolding BindUnpivot_def Let_def
  apply (simp split: sum.splits if_splits prod.splits)
  apply (auto dest!: unpivot_source_columns_where unpivot_value_columns [rotated]
      simp: null_filter_def empty_SelectNode_def)
  done

text \<open>
  C7. Whatever filter the caller of \<^verbatim>\<open>BindUnpivot\<close> supplies, the select node it returns
  has no WHERE predicate, and the filter it hands back is the supplied one when nulls are
  included, and otherwise the supplied one conjoined with one \<^verbatim>\<open>IS NOT NULL\<close> per value
  column, in order. \<^verbatim>\<open>Bind\<close> supplies no filter. When \<^verbatim>\<open>Bind\<close> takes the unpivot path and
  the rewrite and the binding of its node succeed, there is no filter exactly when nulls are
  included (or there is no value column); then \<^verbatim>\<open>Bind\<close> registers the bound node itself.
  Otherwise it binds \<^verbatim>\<open>SELECT * WHERE filter\<close> over the bound node in a further scope and
  registers that one wrapping level.
\<close>

theorem unpivot_null_filter:
  assumes "aggregates ref = []"
    and "source ref = Some src"
    and "BindSource ops src = Inr star_binder"
    and "star_binder (StarExpression []) = Inr all_columns"
    and "BindUnpivot ext star_binder ref all_columns None = Inr (select_node, where_filter)"
    and "BindNode ops this select_node = Inr (child, bound)"
    and "MoveCorrelatedExpressions ops child (correlated_columns this) = (child', correlated)"
  shows "(\<forall>w node f. BindUnpivot ext star_binder ref all_columns w = Inr (node, f)
            \<longrightarrow> where_clause node = None \<and> f = null_filter ref w)
    \<and> where_clause select_node = None
    \<and> where_filter = null_filter ref None
    \<and> (null_filter ref None = None \<longleftrightarrow> include_nulls ref \<or> unpivot_names ref = [])
    \<and> Bind ops ext ref this =
        (case null_filter ref None of
           None \<Rightarrow>
             Bind_register ops (this\<lparr>correlated_columns := correlated\<rparr>) (GetRootIndex ops bound)
               (subquery_alias_of ref) (column_name_alias ref) bound
               (BoundSubqueryRef child' bound)
         | Some f \<Rightarrow>
             (case AddSubquery ops (GetRootIndex ops bound) (subquery_alias_of ref)
                     (column_name_alias ref) bound [] of
                Inl e \<Rightarrow> (Inl e, this\<lparr>correlated_columns := correlated\<rparr>)
              | Inr child_context \<Rightarrow>
                  (case BindSelectNode ops (this\<lparr>correlated_columns := correlated\<rparr>) child_context
                          (SelectNode [StarExpression []] None (Some f) [])
                          (BoundSubqueryRef child' bound) of
                     Inl e \<Rightarrow> (Inl e, this\<lparr>correlated_columns := correlated\<rparr>)
                   | Inr (wrap_child, wrap_bound) \<Rightarrow>
                       Bind_register ops (this\<lparr>correlated_columns := correlated\<rparr>)
                         (GetRootIndex ops wrap_bound) (subquery_alias_of ref)
                         (column_name_alias ref) wrap_bound
                         (BoundSubqueryRef wrap_child wrap_bound))))"
proof -
  note w = BindUnpivot_where [OF assms(5)]
  have none: "null_filter ref None = None \<longleftrightarrow> include_nulls ref \<or> unpivot_names ref = []"
  proof -
    have "foldl conjoin w fs = None \<longleftrightarrow> w = None \<and> fs = []" for w fs
      by (induction fs arbitrary: w) (auto simp: conjoin_def)
    then show ?thesis by (simp add: null_filter_def)
  qed
  have rewrite: "Bind_rewrite ext star_binder ref all_columns = Inr (select_node, null_filter ref None)"
    using assms(1,5) w by (simp add: Bind_rewrite_def)
  have "Bind ops ext ref this = (case null_filter ref None of
           None \<Rightarrow>
             Bind_register ops (this\<lparr>correlated_columns := correlated\<rparr>) (GetRootIndex ops bound)
               (subquery_alias_of ref) (column_name_alias ref) bound
               (BoundSubqueryRef child' bound)
         | Some f \<Rightarrow>
             (case AddSubquery ops (GetRootIndex ops bound) (subquery_alias_of ref)
                     (column_name_alias ref) bound [] of
                Inl e \<Rightarrow> (Inl e, this\<lparr>correlated_columns := correlated\<rparr>)
              | Inr child_context \<Rightarrow>
                  (case BindSelectNode ops (this\<lparr>correlated_columns := correlated\<rparr>) child_context
                          (SelectNode [StarExpression []] None (Some f) [])
                          (BoundSubqueryRef child' bound) of
                     Inl e \<Rightarrow> (Inl e, this\<lparr>correlated_columns := correlated\<rparr>)
                   | Inr (wrap_child, wrap_bound) \<Rightarrow>
                       Bind_register ops (this\<lparr>correlated_columns := correlated\<rparr>)
                         (GetRootIndex ops wrap_bound) (subquery_alias_of ref)
                         (column_name_alias ref) wrap_bound
                         (BoundSubqueryRef wrap_child wrap_bound))))"
    using assms(2,3,4,6,7) rewrite
    by (simp add: Bind_def Let_def subquery_alias_of_def where_query_def
        split: option.splits sum.splits prod.splits)
  then show ?thesis using w none BindUnpivot_where by simp
qed

lemma quarters_BindUnpivot:
  "BindUnpivot example_ext (\<lambda>star. Inr quarters_columns) quarters_ref quarters_columns None
     = Inr (quarters_node, Some quarters_filter)"
  by code_simp

text \<open>
  The theorem at \<^verbatim>\<open>UNPIVOT t ON (q1, q2) INTO NAME quarter VALUE amount\<close>: the registered
  node is \<^verbatim>\<open>SELECT * WHERE amount IS NOT NULL\<close> over the bound rewrite.
\<close>

theorem unpivot_null_filter_witness:
  "Bind (example_ops quarters_columns) example_ext quarters_ref empty_Binder =
     (Inr (BoundSubqueryRef ()
             (Bound 1 (SelectNode [StarExpression []] None (Some quarters_filter) [])
                (Some (Bound 0 quarters_node None)))),
      \<lparr>bind_context =
         [(1, ''__unnamed_pivot'', [],
           Bound 1 (SelectNode [StarExpression []] None (Some quarters_filter) [])
             (Some (Bound 0 quarters_node None)))],
       correlated_columns = ()\<rparr>)"
proof -
  have h1: "aggregates quarters_ref = []"
    by (simp add: quarters_ref_def unpivot_ref_def)
  have h2: "source quarters_ref = Some (BaseTableRef ''t'')"
    by (simp add: quarters_ref_def unpivot_ref_def)
  have h3: "BindSource (example_ops quarters_columns) (BaseTableRef ''t'')
      = Inr (\<lambda>star. Inr quarters_columns)"
    by (simp add: example_ops_def)
  have h4: "(\<lambda>star. Inr quarters_columns) (StarExpression []) = Inr quarters_columns"
    by simp
  have h6: "BindNode (example_ops quarters_columns) empty_Binder quarters_node
      = Inr ((), Bound 0 quarters_node None)"
    by (simp add: example_ops_def empty_Binder_def)
  have h7: "MoveCorrelatedExpressions (example_ops quarters_columns) ()
      (correlated_columns empty_Binder) = ((), ())"
    by (simp add: example_ops_def)
  have nf: "null_filter quarters_ref None = Some quarters_filter"
    by (simp add: null_filter_def quarters_ref_def unpivot_ref_def conjoin_def is_not_null_def
        value_column_name_def quarters_filter_def)
  note bind = unpivot_null_filter [OF h1 h2 h3 h4 quarters_BindUnpivot h6 h7,
      THEN conjunct2, THEN conjunct2, THEN conjunct2, THEN conjunct2]
  have names: "subquery_alias_of quarters_ref = ''__unnamed_pivot''"
      "column_name_alias quarters_ref = []"
    by (simp_all add: subquery_alias_of_def quarters_ref_def unpivot_ref_def)
  show ?thesis
    by (simp only: bind nf names option.case)
       (simp add: example_ops_def Bind_register_def empty_Binder_def)
qed

section \<open>C8: a failed Bind registers nothing\<close>

text \<open>
  C8. Whatever step of \<^verbatim>\<open>Bind\<close> fails, the sub-query registry of the enclosing scope is
  the one before the call, and the call ends in the one exception of that step. When
  \<^verbatim>\<open>Bind\<close> succeeds, the registry is the result of the single \<^verbatim>\<open>AddSubquery\<close> on the registry
  before the call, made after the rewrite and every binding.
\<close>

theorem failed_Bind_registers_nothing:
  "case Bind ops ext ref this of
     (Inl e, this') \<Rightarrow> bind_context this' = bind_context this
   | (Inr result, this') \<Rightarrow>
       (\<exists>root_index bound.
          AddSubquery ops root_index
            (if ref_alias ref = [] then ''__unnamed_pivot'' else ref_alias ref)
            (column_name_alias ref) bound (bind_context this) = Inr (bind_context this'))"
  by (auto simp: Bind_def Bind_register_def Let_def
      split: option.splits sum.splits prod.splits)

section \<open>C9: the enumerator reads the pivot columns unchecked\<close>

lemma ConstructPivots_in_bounds:
  "pivot_idx < length (pivots ref) \<Longrightarrow>
     ConstructPivots ext ref acc pivot_idx cur \<noteq> Inl OutOfBoundsAccess"
proof (induction "length (pivots ref) - pivot_idx" arbitrary: pivot_idx acc cur)
  case 0
  then show ?case by simp
next
  case (Suc n)
  have step: "Suc pivot_idx \<noteq> length (pivots ref) \<Longrightarrow>
      ConstructPivots ext ref acc' (Suc pivot_idx) cur' \<noteq> Inl OutOfBoundsAccess" for acc' cur'
    using Suc.hyps(1) [of "Suc pivot_idx"] Suc.hyps(2) Suc.prems by simp
  show ?case
    using Suc.prems
    by (subst ConstructPivots.simps)
       (auto simp: Let_def D_ASSERT_def step intro!: for_each_not_error
          split: sum.splits if_splits)
qed

lemma BindPivot_validate_no_pivots:
  assumes "pivots ref = []" and "for_each bind_pivot_aggregate (aggregates ref) {} = Inr h"
  shows "BindPivot_validate ext ref = Inr (ref, h)"
  using assms by (simp add: BindPivot_validate_def limit_not_reached_by_one)

text \<open>
  C9. \<^verbatim>\<open>ConstructPivots\<close>, called at index 0 as \<^verbatim>\<open>BindPivot\<close> calls it, reads past the end of
  \<^verbatim>\<open>ref.pivots\<close> exactly when the declaration has no pivot column: with at least one, every
  level it reaches is in bounds. A declaration without pivot columns whose aggregates pass
  validation has the total count 1, passes the limit, and ends in the out-of-bounds access,
  not in a validation error.
\<close>

theorem pivot_path_in_bounds:
  "(ConstructPivots ext ref acc 0 cur = Inl OutOfBoundsAccess \<longleftrightarrow> pivots ref = [])
   \<and> (pivots ref = [] \<and> for_each bind_pivot_aggregate (aggregates ref) {} = Inr h
        \<longrightarrow> BindPivot ext ref all_columns = Inl OutOfBoundsAccess)"
proof -
  have "ConstructPivots ext ref acc 0 cur \<noteq> Inl OutOfBoundsAccess" if "pivots ref \<noteq> []"
    using that ConstructPivots_in_bounds [of 0 ref ext acc cur] by simp
  moreover have "BindPivot ext ref all_columns = Inl OutOfBoundsAccess"
    if "pivots ref = []" "for_each bind_pivot_aggregate (aggregates ref) {} = Inr h"
    using that BindPivot_validate_no_pivots [OF that, of ext]
    by (simp add: BindPivot_def ConstructPivots_no_pivots)
  ultimately show ?thesis
    using ConstructPivots_no_pivots [of ref ext acc 0 cur] by blast
qed

text \<open>The theorem at \<^verbatim>\<open>PIVOT t USING sum(amount)\<close> and at a declaration with two pivot columns.\<close>

theorem pivot_path_in_bounds_witness:
  "pivots no_pivots_ref = []
   \<and> BindPivot example_ext no_pivots_ref [ColumnRef ''region'', ColumnRef ''amount'']
       = Inl OutOfBoundsAccess
   \<and> ConstructPivots example_ext quarter_region_ref [] 0 empty_PivotValueElement
       \<noteq> Inl OutOfBoundsAccess"
proof -
  have h1: "pivots no_pivots_ref = []" by (simp add: no_pivots_ref_def pivot_ref_def)
  have h2: "for_each bind_pivot_aggregate (aggregates no_pivots_ref) {}
      = Inr (cis_insert ''amount'' {})"
    by (simp only: no_pivots_ref_def pivot_ref_sel bind_sum_amount)
  have h3: "pivots quarter_region_ref \<noteq> []" by (simp add: quarter_region_ref_def pivot_ref_def)
  show ?thesis
    using h1 h2 h3
      pivot_path_in_bounds [of example_ext no_pivots_ref "[]" empty_PivotValueElement
        "cis_insert ''amount'' {}" "[ColumnRef ''region'', ColumnRef ''amount'']"]
      pivot_path_in_bounds [of example_ext quarter_region_ref "[]" empty_PivotValueElement]
    by simp
qed

section \<open>C10: the value positions of UNPIVOT\<close>

lemma unpivot_entry_expressions:
  "for_each (unpivot_entry_expression ext v_idx) es acc =
     (if list_ex (\<lambda>entry. length (entry_values entry) \<le> v_idx) es then Inl OutOfBoundsAccess
      else Inr (acc @ map (\<lambda>entry. ColumnRef (ToString ext (entry_values entry ! v_idx))) es))"
  by (induction es arbitrary: acc) (auto simp: unpivot_entry_expression_def)

lemma unpivot_value_positions:
  "for_each
     (\<lambda>v_idx unpivot_expressions.
        case for_each (unpivot_entry_expression ext v_idx) es [] of
          Inl e \<Rightarrow> Inl e
        | Inr expressions \<Rightarrow> Inr (unpivot_expressions @ [expressions]))
     vs acc =
   (if list_ex (\<lambda>v_idx. list_ex (\<lambda>entry. length (entry_values entry) \<le> v_idx) es) vs
    then Inl OutOfBoundsAccess
    else Inr (acc @ map (\<lambda>v_idx. map (\<lambda>entry. ColumnRef (ToString ext (entry_values entry ! v_idx))) es) vs))"
  by (induction vs arbitrary: acc) (auto simp: unpivot_entry_expressions)

text \<open>
  The loop over the value positions reads \<^verbatim>\<open>unpivot.entries[0]\<close> and, for every position
  of the first entry, that position of every entry, all unchecked: it ends in an
  out-of-bounds access exactly when there is no entry or some entry has fewer values than
  the first, and otherwise returns one list of column references per value position of the
  first entry.
\<close>

lemma unpivot_build_expressions_eq:
  "unpivot_build_expressions ext es =
     (if es = [] \<or> list_ex (\<lambda>entry. length (entry_values entry) < length (entry_values (hd es))) es
      then Inl OutOfBoundsAccess
      else Inr (map (\<lambda>v_idx. map (\<lambda>entry. ColumnRef (ToString ext (entry_values entry ! v_idx))) es)
                  [0 ..< length (entry_values (hd es))]))"
proof (cases "es = []")
  case True
  then show ?thesis by (simp add: unpivot_build_expressions_def)
next
  case False
  let ?n = "length (entry_values (hd es))"
  have hd: "es ! 0 = hd es" using False by (simp add: hd_conv_nth)
  have "list_ex (\<lambda>v_idx. list_ex (\<lambda>entry. length (entry_values entry) \<le> v_idx) es) [0 ..< ?n]
      \<longleftrightarrow> list_ex (\<lambda>entry. length (entry_values entry) < ?n) es"
  proof
    assume "list_ex (\<lambda>v_idx. list_ex (\<lambda>entry. length (entry_values entry) \<le> v_idx) es) [0 ..< ?n]"
    then obtain v_idx entry where "v_idx < ?n" "entry \<in> set es"
        "length (entry_values entry) \<le> v_idx"
      by (auto simp: list_ex_iff)
    then have "entry \<in> set es \<and> length (entry_values entry) < ?n" by simp
    then show "list_ex (\<lambda>entry. length (entry_values entry) < ?n) es"
      unfolding list_ex_iff by blast
  next
    assume "list_ex (\<lambda>entry. length (entry_values entry) < ?n) es"
    then obtain entry where "entry \<in> set es" "length (entry_values entry) < ?n"
      by (auto simp: list_ex_iff)
    then show "list_ex (\<lambda>v_idx. list_ex (\<lambda>entry. length (entry_values entry) \<le> v_idx) es) [0 ..< ?n]"
      unfolding list_ex_iff by (intro bexI [of _ "length (entry_values entry)"] bexI [of _ entry]) auto
  qed
  then show ?thesis
    using False by (simp add: unpivot_build_expressions_def hd unpivot_value_positions)
qed

lemma unpivot_handled_columns_eq:
  "unpivot_handled_columns ext es = named_columns ext es"
proof -
  have inner: "fold (\<lambda>v handled_columns. cis_insert (ToString ext v) handled_columns) vs S
      = S \<union> (\<lambda>v. Lower (ToString ext v)) ` set vs" for vs S
    by (induction vs arbitrary: S) (auto simp: cis_insert_def)
  have "fold (\<lambda>entry handled_columns.
             fold (\<lambda>v handled_columns. cis_insert (ToString ext v) handled_columns)
               (entry_values entry) handled_columns) es S
      = S \<union> named_columns ext es" for S
    by (induction es arbitrary: S) (auto simp: inner named_columns_def)
  then show ?thesis by (simp add: unpivot_handled_columns_def)
qed

lemma unpivot_source_columns:
  "list_all is_COLUMN_REF cols \<Longrightarrow>
   \<exists>node' m'. for_each unpivot_source_column cols (node, m, h)
       = Inr (node', m', h - (\<lambda>c. Lower (column_name c)) ` set cols)
     \<and> dom m' = dom m \<union> (h \<inter> (\<lambda>c. Lower (column_name c)) ` set cols)"
proof (induction cols arbitrary: node m h)
  case Nil
  then show ?case by simp
next
  case (Cons c cols)
  then have c: "is_COLUMN_REF c" and cols: "list_all is_COLUMN_REF cols" by simp_all
  show ?case
  proof (cases "Lower (column_name c) \<in> h")
    case True
    have step: "unpivot_source_column c (node, m, h)
        = Inr (node, m(Lower (column_name c) \<mapsto> column_name c), h - {Lower (column_name c)})"
      using c True by (simp add: unpivot_source_column_def cis_find_def cis_erase_def)
    from Cons.IH [OF cols, of node "m(Lower (column_name c) \<mapsto> column_name c)"
        "h - {Lower (column_name c)}"]
    obtain node' m' where
        "for_each unpivot_source_column cols
           (node, m(Lower (column_name c) \<mapsto> column_name c), h - {Lower (column_name c)})
         = Inr (node', m', h - {Lower (column_name c)} - (\<lambda>c. Lower (column_name c)) ` set cols)"
        and "dom m' = dom (m(Lower (column_name c) \<mapsto> column_name c))
           \<union> ((h - {Lower (column_name c)}) \<inter> (\<lambda>c. Lower (column_name c)) ` set cols)"
      by blast
    moreover have "h - {Lower (column_name c)} - (\<lambda>c. Lower (column_name c)) ` set cols
        = h - (\<lambda>c. Lower (column_name c)) ` set (c # cols)"
      by auto
    moreover have "dom (m(Lower (column_name c) \<mapsto> column_name c))
           \<union> ((h - {Lower (column_name c)}) \<inter> (\<lambda>c. Lower (column_name c)) ` set cols)
        = dom m \<union> (h \<inter> (\<lambda>c. Lower (column_name c)) ` set (c # cols))"
      using True by auto
    ultimately show ?thesis
      by (simp only: for_each.simps step sum.case) blast
  next
    case False
    have step: "unpivot_source_column c (node, m, h) = Inr (push_select c node, m, h)"
      using c False by (simp add: unpivot_source_column_def cis_find_def)
    from Cons.IH [OF cols, of "push_select c node" m h]
    obtain node' m' where
        "for_each unpivot_source_column cols (push_select c node, m, h)
         = Inr (node', m', h - (\<lambda>c. Lower (column_name c)) ` set cols)"
        and "dom m' = dom m \<union> (h \<inter> (\<lambda>c. Lower (column_name c)) ` set cols)"
      by blast
    moreover have "h - (\<lambda>c. Lower (column_name c)) ` set cols
        = h - (\<lambda>c. Lower (column_name c)) ` set (c # cols)"
      using False by auto
    moreover have "dom m \<union> (h \<inter> (\<lambda>c. Lower (column_name c)) ` set cols)
        = dom m \<union> (h \<inter> (\<lambda>c. Lower (column_name c)) ` set (c # cols))"
      using False by auto
    ultimately show ?thesis
      by (simp only: for_each.simps step sum.case) blast
  qed
qed

lemma unpivot_generated_names:
  "(\<And>v. v \<in> set vs \<Longrightarrow> Lower (ToString ext v) \<in> dom m) \<Longrightarrow>
   \<exists>name. for_each (unpivot_generated_name ext m) vs acc = Inr name"
proof (induction vs arbitrary: acc)
  case Nil
  then show ?case by simp
next
  case (Cons v vs)
  then obtain column where "m (Lower (ToString ext v)) = Some column" by force
  then have "\<exists>acc'. unpivot_generated_name ext m v acc = Inr acc'"
    by (simp add: unpivot_generated_name_def)
  then obtain acc' where step: "unpivot_generated_name ext m v acc = Inr acc'" by blast
  from Cons.IH [of acc'] Cons.prems obtain name where
    "for_each (unpivot_generated_name ext m) vs acc' = Inr name" by auto
  with step show ?case by simp
qed

lemma unpivot_entry_names:
  "named_columns ext es \<subseteq> dom m \<Longrightarrow>
   \<exists>names. for_each (unpivot_entry_name ext m) es acc = Inr names"
proof (induction es arbitrary: acc)
  case Nil
  then show ?case by simp
next
  case (Cons entry es)
  have "\<And>v. v \<in> set (entry_values entry) \<Longrightarrow> Lower (ToString ext v) \<in> dom m"
    using Cons.prems by (auto simp: named_columns_def)
  from unpivot_generated_names [of "entry_values entry" ext m "[]", OF this]
  obtain name where "for_each (unpivot_generated_name ext m) (entry_values entry) [] = Inr name"
    by blast
  then obtain acc' where step: "unpivot_entry_name ext m entry acc = Inr acc'"
    by (simp add: unpivot_entry_name_def)
  have "named_columns ext es \<subseteq> dom m" using Cons.prems by (auto simp: named_columns_def)
  from Cons.IH [OF this, of acc'] obtain names where
    "for_each (unpivot_entry_name ext m) es acc' = Inr names" by blast
  with step show ?case by simp
qed

text \<open>
  C10 (amended). \<^verbatim>\<open>BindUnpivot\<close> validates neither that the entry list of its pivot column
  is non-empty nor the arity of an entry against the first. Take a declaration that reaches
  the loop of lines 437-445: it has a pivot column with a name column (and, in a debug
  build, no group and no second pivot column), the expansion of the stars has given the
  entries, the source columns are column references, and every column an entry names is
  among them. Its rewrite ends in an out-of-bounds access, not in a user error, exactly
  when there is no entry or some entry has fewer values than the first. Otherwise it ends
  in the name-count error when the number of value names differs from the arity of the first
  entry, and returns a select node when they agree; so an entry with more values than the
  first is accepted.
\<close>

theorem BindUnpivot_value_positions:
  assumes "debug ext \<longrightarrow> groups ref = [] \<and> length (pivots ref) = 1"
    and "pivots ref \<noteq> []"
    and "column_unpivot_names (pivots ref ! 0) \<noteq> []"
    and "for_each (unpivot_expand_entry ext child_binder) (entries (pivots ref ! 0)) [] = Inr es"
    and "list_all is_COLUMN_REF all_columns"
    and "named_columns ext es \<subseteq> (\<lambda>c. Lower (column_name c)) ` set all_columns"
  shows "if es = [] \<or> list_ex (\<lambda>entry. length (entry_values entry) < length (entry_values (hd es))) es
     then BindUnpivot ext child_binder ref all_columns where_filter = Inl OutOfBoundsAccess
     else if length (unpivot_names ref) \<noteq> length (entry_values (hd es))
     then BindUnpivot ext child_binder ref all_columns where_filter
            = Inl (BinderException ''UNPIVOT name count mismatch'')
     else \<exists>select_node f. BindUnpivot ext child_binder ref all_columns where_filter
            = Inr (select_node, f)"
proof -
  let ?L = "(\<lambda>c. Lower (column_name c)) ` set all_columns"
  let ?node = "set_from_table (source ref) empty_SelectNode"
  from unpivot_source_columns [OF assms(5), of ?node Map.empty "named_columns ext es"]
  obtain node' where
      "\<exists>m'. for_each unpivot_source_column all_columns (?node, Map.empty, named_columns ext es)
            = Inr (node', m', named_columns ext es - ?L)
          \<and> dom m' = dom (Map.empty :: string \<rightharpoonup> string) \<union> (named_columns ext es \<inter> ?L)" ..
  then obtain m' where both:
      "for_each unpivot_source_column all_columns (?node, Map.empty, named_columns ext es)
            = Inr (node', m', named_columns ext es - ?L)
          \<and> dom m' = dom (Map.empty :: string \<rightharpoonup> string) \<union> (named_columns ext es \<inter> ?L)" ..
  note src = both [THEN conjunct1] and dom = both [THEN conjunct2]
  have empty: "named_columns ext es - ?L = {}" using assms(6) by auto
  have "named_columns ext es \<subseteq> dom m'" using dom assms(6) by auto
  from unpivot_entry_names [OF this, of "[]"] obtain names where
    names: "for_each (unpivot_entry_name ext m') es [] = Inr names" by blast
  have asserts: "D_ASSERT ext (groups ref = []) a = Inr ()"
      "D_ASSERT ext (length (pivots ref) = 1) b = Inr ()" for a b
    using assms(1) by (auto simp: D_ASSERT_def)
  have run: "BindUnpivot ext child_binder ref all_columns where_filter =
     (case unpivot_build_expressions ext es of
        Inl e \<Rightarrow> Inl e
      | Inr unpivot_expressions \<Rightarrow>
          if length (unpivot_names ref) \<noteq> length unpivot_expressions then
            Inl (BinderException ''UNPIVOT name count mismatch'')
          else
            Inr (fold (unpivot_value_column ref)
                   (zip [0 ..< length unpivot_expressions] unpivot_expressions)
                   (push_select
                      (FunctionExpression (column_unpivot_names (pivots ref ! 0) ! 0) ''unnest''
                         [ConstantExpression [] (LIST names)]) node',
                    where_filter)))"
    unfolding BindUnpivot_def Let_def
    by (simp only: asserts sum.case assms(2,4) if_False)
       (simp add: unpivot_handled_columns_eq src empty names assms(3) split: sum.splits)
  show ?thesis
  proof (cases "es = [] \<or> list_ex (\<lambda>entry. length (entry_values entry) < length (entry_values (hd es))) es")
    case True
    then show ?thesis
      by (simp only: run unpivot_build_expressions_eq if_True sum.case)
  next
    case False
    then show ?thesis
      by (simp only: run unpivot_build_expressions_eq if_False sum.case length_map length_upt
          diff_zero) (simp add: surj_pair)
  qed
qed

text \<open>
  The theorem at \<^verbatim>\<open>UNPIVOT t ON (a, b), (c) INTO NAME n VALUE v, w\<close>: every column exists,
  and the second entry has no second value.
\<close>

theorem BindUnpivot_value_positions_witness:
  "BindUnpivot example_ext (\<lambda>star. Inr ragged_columns) short_ref ragged_columns None
     = Inl OutOfBoundsAccess"
proof -
  have es: "for_each (unpivot_expand_entry example_ext (\<lambda>star. Inr ragged_columns))
        (entries (pivots short_ref ! 0)) []
      = Inr [in_entry [VARCHAR ''a'', VARCHAR ''b''], in_entry [VARCHAR ''c'']]"
    by (simp add: short_ref_def unpivot_ref_def unpivot_on_def in_entry_def
        unpivot_expand_entry_def)
  have h1: "debug example_ext \<longrightarrow> groups short_ref = [] \<and> length (pivots short_ref) = 1"
    and h2: "pivots short_ref \<noteq> []"
    and h3: "column_unpivot_names (pivots short_ref ! 0) \<noteq> []"
    by (simp_all add: short_ref_def unpivot_ref_def unpivot_on_def)
  have h5: "list_all is_COLUMN_REF ragged_columns"
    by (simp add: ragged_columns_def ColumnRef_def)
  have h6: "named_columns example_ext [in_entry [VARCHAR ''a'', VARCHAR ''b''], in_entry [VARCHAR ''c'']]
      \<subseteq> (\<lambda>c. Lower (column_name c)) ` set ragged_columns"
    by (simp add: named_columns_def in_entry_def example_ext_def ragged_columns_def ColumnRef_def)
  from BindUnpivot_value_positions [OF h1 h2 h3 es h5 h6, of None] show ?thesis
    by (simp add: in_entry_def)
qed

text \<open>
  C10 as stated fails for \<^verbatim>\<open>UNPIVOT t ON (a), (b, c) INTO NAME n VALUE v\<close>: the arities of
  the entries differ, and the rewrite succeeds without any out-of-bounds access (the
  column \<^verbatim>\<open>c\<close> is dropped from the value list).
\<close>

theorem unpivot_longer_entry_counterexample:
  "BindUnpivot example_ext (\<lambda>star. Inr ragged_columns) ragged_ref ragged_columns None =
     Inr (SelectNode
            [ColumnRef ''id'',
             FunctionExpression ''n'' ''unnest''
               [ConstantExpression [] (LIST [VARCHAR ''a'', VARCHAR ''b_c''])],
             FunctionExpression ''v'' ''unnest''
               [FunctionExpression [] ''list_value'' [ColumnRef ''a'', ColumnRef ''b'']]]
            (Some (BaseTableRef ''t'')) None [],
          Some (OperatorExpression [] OPERATOR_IS_NOT_NULL [ColumnRef ''v'']))"
  by code_simp

section \<open>Further properties: the column-usage extractor\<close>

text \<open>
  \<^verbatim>\<open>ExtractPivotExpressions\<close> fails exactly when the expression contains a qualified column
  reference, and otherwise adds the name of every column reference of the expression to
  the handled columns, without regard to case.
\<close>

lemma extraction_append:
  "(case extraction xs h of Inl e \<Rightarrow> Inl e | Inr h' \<Rightarrow> extraction ys h')
     = extraction (xs @ ys) h"
  by (auto simp: extraction_def)

lemma extraction_children:
  assumes "\<And>c h. c \<in> set cs \<Longrightarrow> ExtractPivotExpressions c h = extraction (column_refs c) h"
  shows "for_each ExtractPivotExpressions cs h = extraction (concat (map column_refs cs)) h"
  using assms
proof (induction cs arbitrary: h)
  case Nil
  then show ?case by (simp add: extraction_def)
next
  case (Cons c cs)
  have rest: "for_each ExtractPivotExpressions cs h'
      = extraction (concat (map column_refs cs)) h'" for h'
    using Cons.prems by (intro Cons.IH) simp
  have first: "ExtractPivotExpressions c h = extraction (column_refs c) h"
    using Cons.prems by simp
  show ?case
    by (simp add: first rest extraction_append cong: sum.case_cong)
qed

lemma ExtractPivotExpressions_columns:
  "ExtractPivotExpressions expr h =
     (if list_ex (\<lambda>c. qualifier c \<noteq> []) (column_refs expr) then
        Inl (BinderException ''PIVOT expression cannot contain qualified columns'')
      else Inr (h \<union> set (map (\<lambda>c. Lower (column_name c)) (column_refs expr))))"
proof -
  have "ExtractPivotExpressions expr h = extraction (column_refs expr) h"
  proof (induction expr arbitrary: h rule: column_refs.induct)
    case (1 e)
    have children: "for_each ExtractPivotExpressions (EnumerateChildren e) h'
        = extraction (concat (map column_refs (EnumerateChildren e))) h'" for h'
      using 1 by (intro extraction_children) simp
    have head: "(case e of
          ColumnRefExpression a q n \<Rightarrow>
            if q \<noteq> [] then
              Inl (BinderException ''PIVOT expression cannot contain qualified columns'')
            else Inr (cis_insert n h)
        | _ \<Rightarrow> Inr h) = extraction (if is_COLUMN_REF e then [e] else []) h"
      by (cases e) (simp_all add: extraction_def cis_insert_def qualified_error_def)
    have "ExtractPivotExpressions e h =
        (case extraction (if is_COLUMN_REF e then [e] else []) h of
           Inl x \<Rightarrow> Inl x
         | Inr h' \<Rightarrow> extraction (concat (map column_refs (EnumerateChildren e))) h')"
      by (subst ExtractPivotExpressions.simps) (simp only: head children cong: sum.case_cong)
    also have "\<dots> = extraction (column_refs e) h"
      by (subst column_refs.simps) (simp only: extraction_append)
    finally show ?case .
  qed
  then show ?thesis by (simp add: extraction_def qualified_error_def)
qed

end
